theory Spec2Isabelle
  imports Main "HOL-Library.Word"
begin

section \<open>Objects of the buffer and texture code\<close>

text \<open>
  The model follows \<^verbatim>\<open>types/wlr_buffer.c\<close> and \<^verbatim>\<open>render/gles2/texture.c\<close>.
  Heap objects live in a store indexed by address; a pointer that may be \<^verbatim>\<open>NULL\<close> is an
  \<open>addr option\<close>. Freeing an object removes its cell, and a later access through the
  dangling pointer is the error \<open>UseAfterFree\<close>. A failed \<^verbatim>\<open>assert\<close> is the error
  \<open>AssertionFailed\<close>. Everything the code does to the outside (signals, protocol messages,
  GL and EGL calls) is appended to a trace.
\<close>

type_synonym addr = nat
type_synonym u32 = "32 word"
type_synonym byte = "8 word"

datatype error = AssertionFailed | UseAfterFree | NullDereference | DivisionByZero | OutOfBounds

datatype gl_target = GL_TEXTURE_2D | GL_TEXTURE_EXTERNAL_OES

datatype gl_pname = GL_UNPACK_ROW_LENGTH_EXT | GL_UNPACK_SKIP_PIXELS_EXT | GL_UNPACK_SKIP_ROWS_EXT

datatype gl_call =
    EglSaveContext
  | EglMakeCurrent
  | EglRestoreContext
  | PushDebug
  | PopDebug
  | GlGenTextures nat
  | GlBindTexture gl_target nat
  | GlTexParameteri gl_target
  | GlPixelStorei gl_pname u32
  | GlTexImage2D u32 u32 "addr option"
  | GlTexSubImage2D u32 u32 u32 u32 "addr option"
  | GlEGLImageTargetTexture2DOES gl_target nat
  | GlDeleteTextures nat
  | EglCreateImageFromDmabuf
  | EglDestroyImage "nat option"

datatype event =
    EvRelease addr
  | EvDestroy addr
  | EvFree addr
  | WlBufferSendRelease addr
  | WlrTextureDestroy addr
  | WlShmBufferBeginAccess
  | WlShmBufferEndAccess
  | WlShmBufferRefPool addr
  | WlShmPoolUnref addr
  | DmabufAttributesFinish
  | Gpu gl_call

text \<open>
  \<open>EvRelease p\<close> and \<open>EvDestroy p\<close> are the emissions of the two signals of the buffer at
  \<open>p\<close>; \<open>EvFree p\<close> is the \<^verbatim>\<open>free(buffer)\<close> that ends every backend's destroy function;
  \<open>WlBufferSendRelease r\<close> is \<^verbatim>\<open>wl_buffer_send_release\<close> on the resource \<open>r\<close>.
\<close>

record wlr_dmabuf_attributes =
  a_width :: int
  a_height :: int
  a_flags :: u32
  n_planes :: nat

record wl_shm_buffer =
  sb_data :: addr
  sb_pool :: addr
  sb_format :: u32
  sb_stride :: "32 word"
  sb_width :: "32 word"
  sb_height :: "32 word"

datatype wl_resource =
    ShmResource wl_shm_buffer
  | WlDrmResource
  | DmabufV1Resource wlr_dmabuf_attributes
  | UnknownResource

text \<open>The four structs that embed a \<^verbatim>\<open>struct wlr_buffer base\<close>; here the base record holds
  the enclosing struct in its field \<open>derived\<close>, whose constructor stands for the
  \<^verbatim>\<open>impl\<close> pointer.\<close>

record wlr_client_buffer =
  resource :: "addr option"
  resource_released :: bool
  texture :: addr

record wlr_shm_client_buffer =
  shm_resource :: "addr option"
  shm_buffer :: "wl_shm_buffer option"
  shm_format :: u32
  shm_stride :: "64 word"
  saved_shm_pool :: "addr option"
  shm_saved_data :: "addr option"

record wlr_readonly_data_buffer =
  data :: "addr option"
  format :: u32
  stride :: "64 word"
  saved_data :: "addr option"

record wlr_dmabuf_buffer =
  dmabuf :: wlr_dmabuf_attributes
  saved :: bool

datatype backend =
    ClientBuffer wlr_client_buffer
  | ShmClientBuffer wlr_shm_client_buffer
  | ReadonlyDataBuffer wlr_readonly_data_buffer
  | DmabufBuffer wlr_dmabuf_buffer

text \<open>
  Modelled from the spec: the declaration of \<^verbatim>\<open>struct wlr_buffer\<close> is in the header
  \<^verbatim>\<open>wlr/types/wlr_buffer.h\<close>, which the two source files include and which is not
  covered here. The spec gives \<open>n_locks\<close> as a count that is at least 0 with no upper
  bound enforced, so it is a natural number here; \<open>width\<close> and \<open>height\<close> are the
  \<^verbatim>\<open>int\<close> arguments of \<^verbatim>\<open>wlr_buffer_init\<close>.
\<close>

record wlr_buffer =
  width :: int
  height :: int
  dropped :: bool
  n_locks :: nat
  accessing_data_ptr :: bool
  derived :: backend

record wlr_gles2_texture =
  self :: addr
  t_width :: u32
  t_height :: u32
  target :: gl_target
  image :: "nat option"
  tex :: nat
  has_alpha :: bool
  drm_format :: u32
  inverted_y :: bool
  buffer :: "addr option"

record world =
  bufs :: "addr \<rightharpoonup> wlr_buffer"
  textures :: "wlr_gles2_texture list"
  procs_glEGLImageTargetTexture2DOES :: bool
  resources :: "addr \<rightharpoonup> wl_resource"
  mem :: "addr \<rightharpoonup> byte list"
  trace :: "event list"

type_synonym data_access = "addr option \<times> u32 \<times> 64 word"

definition emit :: "event list \<Rightarrow> world \<Rightarrow> world" where
  "emit es w = w\<lparr>trace := trace w @ es\<rparr>"

definition set_buffer :: "addr \<Rightarrow> wlr_buffer \<Rightarrow> world \<Rightarrow> world" where
  "set_buffer p b w = w\<lparr>bufs := (bufs w)(p \<mapsto> b)\<rparr>"

definition free_buffer :: "addr \<Rightarrow> world \<Rightarrow> world" where
  "free_buffer p w = emit [EvFree p] (w\<lparr>bufs := (bufs w)(p := None)\<rparr>)"

section \<open>Textures: teardown\<close>

text \<open>
  Lines 130 to 148 and 364 to 369 of \<^verbatim>\<open>texture.c\<close>. The renderer's list of textures is
  the field \<open>textures\<close> of the world; a texture is removed from it by its address.
\<close>

definition gles2_texture_destroy :: "wlr_gles2_texture \<Rightarrow> world \<Rightarrow> world" where
  "gles2_texture_destroy t w =
     emit (map Gpu [EglSaveContext, EglMakeCurrent, PushDebug, GlDeleteTextures (tex t),
                    EglDestroyImage (image t), PopDebug, EglRestoreContext])
       (w\<lparr>textures := filter (\<lambda>x. self x \<noteq> self t) (textures w)\<rparr>)"

definition texture_handle_buffer_destroy :: "wlr_gles2_texture \<Rightarrow> world \<Rightarrow> world" where
  "texture_handle_buffer_destroy t w = gles2_texture_destroy t w"

section \<open>The backends\<close>

subsection \<open>Client buffer\<close>

text \<open>
  Lines 147 to 208 of \<^verbatim>\<open>wlr_buffer.c\<close>. \<^verbatim>\<open>wlr_texture_destroy\<close> belongs to the
  renderer: the call is recorded in the trace and what it does to the texture is not
  followed. The listeners return nothing and are run only while the buffer is alive, so
  they are functions from worlds to worlds.
\<close>

definition client_buffer_destroy :: "addr \<Rightarrow> world \<Rightarrow> error + world" where
  "client_buffer_destroy p w =
     (case bufs w p of
        None \<Rightarrow> Inl UseAfterFree
      | Some b \<Rightarrow>
          (case derived b of
             ClientBuffer c \<Rightarrow>
               (let w1 = (case resource c of
                            None \<Rightarrow> w
                          | Some r \<Rightarrow> if \<not> resource_released c
                                      then emit [WlBufferSendRelease r] w else w)
                in Inr (free_buffer p (emit [WlrTextureDestroy (texture c)] w1)))
           | _ \<Rightarrow> Inl AssertionFailed))"

definition client_buffer_get_dmabuf ::
    "addr \<Rightarrow> world \<Rightarrow> error + wlr_dmabuf_attributes option" where
  "client_buffer_get_dmabuf p w =
     (case bufs w p of
        None \<Rightarrow> Inl UseAfterFree
      | Some b \<Rightarrow>
          (case derived b of
             ClientBuffer c \<Rightarrow>
               (case resource c of
                  None \<Rightarrow> Inr None
                | Some r \<Rightarrow>
                    (case resources w r of
                       Some (DmabufV1Resource attribs) \<Rightarrow> Inr (Some attribs)
                     | _ \<Rightarrow> Inr None))
           | _ \<Rightarrow> Inl AssertionFailed))"

definition client_buffer_resource_handle_destroy :: "addr \<Rightarrow> world \<Rightarrow> world" where
  "client_buffer_resource_handle_destroy p w =
     (case bufs w p of
        None \<Rightarrow> w
      | Some b \<Rightarrow>
          (case derived b of
             ClientBuffer c \<Rightarrow> set_buffer p (b\<lparr>derived := ClientBuffer (c\<lparr>resource := None\<rparr>)\<rparr>) w
           | _ \<Rightarrow> w))"

definition client_buffer_handle_release :: "addr \<Rightarrow> world \<Rightarrow> world" where
  "client_buffer_handle_release p w =
     (case bufs w p of
        None \<Rightarrow> w
      | Some b \<Rightarrow>
          (case derived b of
             ClientBuffer c \<Rightarrow>
               (case resource c of
                  None \<Rightarrow> w
                | Some r \<Rightarrow>
                    if \<not> resource_released c
                    then set_buffer p (b\<lparr>derived := ClientBuffer (c\<lparr>resource_released := True\<rparr>)\<rparr>)
                           (emit [WlBufferSendRelease r] w)
                    else w)
           | _ \<Rightarrow> w))"

subsection \<open>Shared-memory client buffer\<close>

text \<open>
  Lines 360 to 424. The \<^verbatim>\<open>wl_shm_buffer\<close> belongs to the protocol resource and is
  destroyed with it; the buffer points to it as long as the resource is alive.
\<close>

definition shm_client_buffer_destroy :: "addr \<Rightarrow> world \<Rightarrow> error + world" where
  "shm_client_buffer_destroy p w =
     (case bufs w p of
        None \<Rightarrow> Inl UseAfterFree
      | Some b \<Rightarrow>
          (case derived b of
             ShmClientBuffer s \<Rightarrow>
               (let w1 = (case saved_shm_pool s of
                            None \<Rightarrow> w
                          | Some pool \<Rightarrow> emit [WlShmPoolUnref pool] w)
                in Inr (free_buffer p w1))
           | _ \<Rightarrow> Inl AssertionFailed))"

definition shm_client_buffer_begin_data_ptr_access ::
    "addr \<Rightarrow> world \<Rightarrow> error + (data_access option \<times> world)" where
  "shm_client_buffer_begin_data_ptr_access p w =
     (case bufs w p of
        None \<Rightarrow> Inl UseAfterFree
      | Some b \<Rightarrow>
          (case derived b of
             ShmClientBuffer s \<Rightarrow>
               (case shm_buffer s of
                  Some sb \<Rightarrow>
                    Inr (Some (Some (sb_data sb), shm_format s, shm_stride s),
                         emit [WlShmBufferBeginAccess] w)
                | None \<Rightarrow> Inr (Some (shm_saved_data s, shm_format s, shm_stride s), w))
           | _ \<Rightarrow> Inl AssertionFailed))"

definition shm_client_buffer_end_data_ptr_access :: "addr \<Rightarrow> world \<Rightarrow> error + world" where
  "shm_client_buffer_end_data_ptr_access p w =
     (case bufs w p of
        None \<Rightarrow> Inl UseAfterFree
      | Some b \<Rightarrow>
          (case derived b of
             ShmClientBuffer s \<Rightarrow>
               (case shm_buffer s of
                  Some sb \<Rightarrow> Inr (emit [WlShmBufferEndAccess] w)
                | None \<Rightarrow> Inr w)
           | _ \<Rightarrow> Inl AssertionFailed))"

definition shm_client_buffer_resource_handle_destroy :: "addr \<Rightarrow> world \<Rightarrow> world" where
  "shm_client_buffer_resource_handle_destroy p w =
     (case bufs w p of
        None \<Rightarrow> w
      | Some b \<Rightarrow>
          (case derived b of
             ShmClientBuffer s \<Rightarrow>
               (case shm_buffer s of
                  None \<Rightarrow> w
                | Some sb \<Rightarrow>
                    set_buffer p
                      (b\<lparr>derived := ShmClientBuffer
                           (s\<lparr>saved_shm_pool := Some (sb_pool sb),
                              shm_saved_data := Some (sb_data sb),
                              shm_resource := None,
                              shm_buffer := None\<rparr>)\<rparr>)
                      (emit [WlShmBufferRefPool (sb_pool sb)] w))
           | _ \<Rightarrow> w))"

definition shm_client_buffer_handle_release :: "addr \<Rightarrow> world \<Rightarrow> world" where
  "shm_client_buffer_handle_release p w =
     (case bufs w p of
        None \<Rightarrow> w
      | Some b \<Rightarrow>
          (case derived b of
             ShmClientBuffer s \<Rightarrow>
               (case shm_resource s of
                  None \<Rightarrow> w
                | Some r \<Rightarrow> emit [WlBufferSendRelease r] w)
           | _ \<Rightarrow> w))"

subsection \<open>Read-only data buffer\<close>

text \<open>Lines 463 to 491.\<close>

definition readonly_data_buffer_destroy :: "addr \<Rightarrow> world \<Rightarrow> error + world" where
  "readonly_data_buffer_destroy p w =
     (case bufs w p of
        None \<Rightarrow> Inl UseAfterFree
      | Some b \<Rightarrow>
          (case derived b of
             ReadonlyDataBuffer r \<Rightarrow>
               (let w1 = (case saved_data r of
                            None \<Rightarrow> w
                          | Some q \<Rightarrow> w\<lparr>mem := (mem w)(q := None)\<rparr>)
                in Inr (free_buffer p w1))
           | _ \<Rightarrow> Inl AssertionFailed))"

definition readonly_data_buffer_begin_data_ptr_access ::
    "addr \<Rightarrow> world \<Rightarrow> error + (data_access option \<times> world)" where
  "readonly_data_buffer_begin_data_ptr_access p w =
     (case bufs w p of
        None \<Rightarrow> Inl UseAfterFree
      | Some b \<Rightarrow>
          (case derived b of
             ReadonlyDataBuffer r \<Rightarrow>
               (case data r of
                  None \<Rightarrow> Inr (None, w)
                | Some a \<Rightarrow> Inr (Some (Some a, format r, stride r), w))
           | _ \<Rightarrow> Inl AssertionFailed))"

definition readonly_data_buffer_end_data_ptr_access :: "addr \<Rightarrow> world \<Rightarrow> error + world" where
  "readonly_data_buffer_end_data_ptr_access p w = Inr w"

subsection \<open>DMA-BUF buffer\<close>

text \<open>Lines 540 to 561.\<close>

definition dmabuf_buffer_destroy :: "addr \<Rightarrow> world \<Rightarrow> error + world" where
  "dmabuf_buffer_destroy p w =
     (case bufs w p of
        None \<Rightarrow> Inl UseAfterFree
      | Some b \<Rightarrow>
          (case derived b of
             DmabufBuffer d \<Rightarrow>
               Inr (free_buffer p (if saved d then emit [DmabufAttributesFinish] w else w))
           | _ \<Rightarrow> Inl AssertionFailed))"

definition dmabuf_buffer_get_dmabuf ::
    "addr \<Rightarrow> world \<Rightarrow> error + wlr_dmabuf_attributes option" where
  "dmabuf_buffer_get_dmabuf p w =
     (case bufs w p of
        None \<Rightarrow> Inl UseAfterFree
      | Some b \<Rightarrow>
          (case derived b of
             DmabufBuffer d \<Rightarrow>
               if n_planes (dmabuf d) = 0 then Inr None else Inr (Some (dmabuf d))
           | _ \<Rightarrow> Inl AssertionFailed))"

subsection \<open>The implementation tables\<close>

record wlr_buffer_impl =
  destroy :: "addr \<Rightarrow> world \<Rightarrow> error + world"
  get_dmabuf :: "(addr \<Rightarrow> world \<Rightarrow> error + wlr_dmabuf_attributes option) option"
  begin_data_ptr_access :: "(addr \<Rightarrow> world \<Rightarrow> error + (data_access option \<times> world)) option"
  end_data_ptr_access :: "(addr \<Rightarrow> world \<Rightarrow> error + world) option"

definition client_buffer_impl :: wlr_buffer_impl where
  "client_buffer_impl =
     \<lparr>destroy = client_buffer_destroy,
      get_dmabuf = Some client_buffer_get_dmabuf,
      begin_data_ptr_access = None,
      end_data_ptr_access = None\<rparr>"

definition shm_client_buffer_impl :: wlr_buffer_impl where
  "shm_client_buffer_impl =
     \<lparr>destroy = shm_client_buffer_destroy,
      get_dmabuf = None,
      begin_data_ptr_access = Some shm_client_buffer_begin_data_ptr_access,
      end_data_ptr_access = Some shm_client_buffer_end_data_ptr_access\<rparr>"

definition readonly_data_buffer_impl :: wlr_buffer_impl where
  "readonly_data_buffer_impl =
     \<lparr>destroy = readonly_data_buffer_destroy,
      get_dmabuf = None,
      begin_data_ptr_access = Some readonly_data_buffer_begin_data_ptr_access,
      end_data_ptr_access = Some readonly_data_buffer_end_data_ptr_access\<rparr>"

definition dmabuf_buffer_impl :: wlr_buffer_impl where
  "dmabuf_buffer_impl =
     \<lparr>destroy = dmabuf_buffer_destroy,
      get_dmabuf = Some dmabuf_buffer_get_dmabuf,
      begin_data_ptr_access = None,
      end_data_ptr_access = None\<rparr>"

fun impl :: "wlr_buffer \<Rightarrow> wlr_buffer_impl" where
  "impl b =
     (case derived b of
        ClientBuffer _ \<Rightarrow> client_buffer_impl
      | ShmClientBuffer _ \<Rightarrow> shm_client_buffer_impl
      | ReadonlyDataBuffer _ \<Rightarrow> readonly_data_buffer_impl
      | DmabufBuffer _ \<Rightarrow> dmabuf_buffer_impl)"

section \<open>The buffer core\<close>

text \<open>Lines 12 to 92: initialisation, the destroy attempt, drop, lock, unlock and the
  scoped access to the data pointer.\<close>

text \<open>
  \<^verbatim>\<open>wlr_buffer_init\<close> runs on a struct that \<^verbatim>\<open>calloc\<close> has zeroed: it stores the
  implementation and the size and leaves the lock count and both flags at zero.
\<close>

definition wlr_buffer_init :: "backend \<Rightarrow> int \<Rightarrow> int \<Rightarrow> error + wlr_buffer" where
  "wlr_buffer_init d w h =
     (let b = \<lparr>width = w, height = h, dropped = False, n_locks = 0,
               accessing_data_ptr = False, derived = d\<rparr>
      in if (begin_data_ptr_access (impl b) \<noteq> None \<or> end_data_ptr_access (impl b) \<noteq> None)
            \<and> \<not> (begin_data_ptr_access (impl b) \<noteq> None \<and> end_data_ptr_access (impl b) \<noteq> None)
         then Inl AssertionFailed
         else Inr b)"

text \<open>
  The listeners of the destroy signal that this code registers are the
  \<open>texture_handle_buffer_destroy\<close> of the textures imported from the buffer; the listeners of
  the release signal are the release handlers that the two client buffer variants add to
  themselves when they are created.
\<close>

definition signal_emit_destroy :: "addr \<Rightarrow> world \<Rightarrow> world" where
  "signal_emit_destroy p w =
     fold texture_handle_buffer_destroy
       (filter (\<lambda>t. buffer t = Some p) (textures w))
       (emit [EvDestroy p] w)"

definition signal_emit_release :: "addr \<Rightarrow> world \<Rightarrow> world" where
  "signal_emit_release p w =
     (let w1 = emit [EvRelease p] w
      in case bufs w1 p of
           None \<Rightarrow> w1
         | Some b \<Rightarrow>
             (case derived b of
                ClientBuffer _ \<Rightarrow> client_buffer_handle_release p w1
              | ShmClientBuffer _ \<Rightarrow> shm_client_buffer_handle_release p w1
              | _ \<Rightarrow> w1))"

definition buffer_consider_destroy :: "addr \<Rightarrow> world \<Rightarrow> error + world" where
  "buffer_consider_destroy p w =
     (case bufs w p of
        None \<Rightarrow> Inl UseAfterFree
      | Some b \<Rightarrow>
          if \<not> dropped b \<or> n_locks b > 0 then Inr w
          else if accessing_data_ptr b then Inl AssertionFailed
          else destroy (impl b) p (signal_emit_destroy p w))"

definition wlr_buffer_drop :: "addr option \<Rightarrow> world \<Rightarrow> error + world" where
  "wlr_buffer_drop buf w =
     (case buf of
        None \<Rightarrow> Inr w
      | Some p \<Rightarrow>
          (case bufs w p of
             None \<Rightarrow> Inl UseAfterFree
           | Some b \<Rightarrow>
               if dropped b then Inl AssertionFailed
               else buffer_consider_destroy p (set_buffer p (b\<lparr>dropped := True\<rparr>) w)))"

definition wlr_buffer_lock :: "addr \<Rightarrow> world \<Rightarrow> error + world" where
  "wlr_buffer_lock p w =
     (case bufs w p of
        None \<Rightarrow> Inl UseAfterFree
      | Some b \<Rightarrow> Inr (set_buffer p (b\<lparr>n_locks := n_locks b + 1\<rparr>) w))"

definition wlr_buffer_unlock :: "addr option \<Rightarrow> world \<Rightarrow> error + world" where
  "wlr_buffer_unlock buf w =
     (case buf of
        None \<Rightarrow> Inr w
      | Some p \<Rightarrow>
          (case bufs w p of
             None \<Rightarrow> Inl UseAfterFree
           | Some b \<Rightarrow>
               if \<not> n_locks b > 0 then Inl AssertionFailed
               else
                 (let w1 = set_buffer p (b\<lparr>n_locks := n_locks b - 1\<rparr>) w;
                      w2 = (if n_locks b - 1 = 0 then signal_emit_release p w1 else w1)
                  in buffer_consider_destroy p w2)))"

definition wlr_buffer_get_dmabuf ::
    "addr \<Rightarrow> world \<Rightarrow> error + wlr_dmabuf_attributes option" where
  "wlr_buffer_get_dmabuf p w =
     (case bufs w p of
        None \<Rightarrow> Inl UseAfterFree
      | Some b \<Rightarrow>
          (case get_dmabuf (impl b) of
             None \<Rightarrow> Inr None
           | Some f \<Rightarrow> f p w))"

definition buffer_begin_data_ptr_access ::
    "addr \<Rightarrow> world \<Rightarrow> error + (data_access option \<times> world)" where
  "buffer_begin_data_ptr_access p w =
     (case bufs w p of
        None \<Rightarrow> Inl UseAfterFree
      | Some b \<Rightarrow>
          if accessing_data_ptr b then Inl AssertionFailed
          else
            (case begin_data_ptr_access (impl b) of
               None \<Rightarrow> Inr (None, w)
             | Some f \<Rightarrow>
                 (case f p w of
                    Inl e \<Rightarrow> Inl e
                  | Inr (None, w1) \<Rightarrow> Inr (None, w1)
                  | Inr (Some acc, w1) \<Rightarrow>
                      (case bufs w1 p of
                         None \<Rightarrow> Inl UseAfterFree
                       | Some b1 \<Rightarrow>
                           Inr (Some acc, set_buffer p (b1\<lparr>accessing_data_ptr := True\<rparr>) w1)))))"

definition buffer_end_data_ptr_access :: "addr \<Rightarrow> world \<Rightarrow> error + world" where
  "buffer_end_data_ptr_access p w =
     (case bufs w p of
        None \<Rightarrow> Inl UseAfterFree
      | Some b \<Rightarrow>
          if \<not> accessing_data_ptr b then Inl AssertionFailed
          else
            (case end_data_ptr_access (impl b) of
               None \<Rightarrow> Inl NullDereference
             | Some f \<Rightarrow>
                 (case f p w of
                    Inl e \<Rightarrow> Inl e
                  | Inr w1 \<Rightarrow>
                      (case bufs w1 p of
                         None \<Rightarrow> Inl UseAfterFree
                       | Some b1 \<Rightarrow>
                           Inr (set_buffer p (b1\<lparr>accessing_data_ptr := False\<rparr>) w1)))))"


section \<open>Dropping a read-only data buffer or a DMA-BUF buffer\<close>

text \<open>
  Lines 493 to 530 and 563 to 594. \<^verbatim>\<open>calloc\<close> and \<^verbatim>\<open>malloc\<close> are answered by the
  caller of the model; so is \<^verbatim>\<open>wlr_dmabuf_attributes_copy\<close>, whose copy has the content of
  the original, so that the attributes are unchanged when it succeeds. \<open>None\<close> is a failed
  allocation, \<open>Some q\<close> the address of the new block. A block of raw memory is the list of
  its bytes. The size of the copy is computed in \<^verbatim>\<open>size_t\<close>, so 64-bit words are used for
  it; \<^verbatim>\<open>memcpy\<close> reading beyond the end of the source block is the error \<open>OutOfBounds\<close>.
\<close>

definition readonly_data_buffer_create ::
    "addr option \<Rightarrow> u32 \<Rightarrow> 64 word \<Rightarrow> u32 \<Rightarrow> u32 \<Rightarrow> addr option \<Rightarrow> world
       \<Rightarrow> error + (addr option \<times> world)" where
  "readonly_data_buffer_create alloc fmt strd wd ht dat w =
     (case alloc of
        None \<Rightarrow> Inr (None, w)
      | Some p \<Rightarrow>
          (case wlr_buffer_init
                  (ReadonlyDataBuffer \<lparr>data = None, format = 0, stride = 0, saved_data = None\<rparr>)
                  (sint wd) (sint ht) of
             Inl e \<Rightarrow> Inl e
           | Inr b \<Rightarrow>
               Inr (Some p,
                    set_buffer p
                      (b\<lparr>derived := ReadonlyDataBuffer
                           \<lparr>data = dat, format = fmt, stride = strd, saved_data = None\<rparr>\<rparr>) w)))"

definition readonly_data_buffer_drop ::
    "addr \<Rightarrow> addr option \<Rightarrow> world \<Rightarrow> error + (bool \<times> world)" where
  "readonly_data_buffer_drop p alloc w =
     (case bufs w p of
        None \<Rightarrow> Inl UseAfterFree
      | Some b \<Rightarrow>
          (case derived b of
             ReadonlyDataBuffer r \<Rightarrow>
               (let copied =
                  (if n_locks b > 0 then
                     (let size = unat (stride r * word_of_int (height b))
                      in case alloc of
                           None \<Rightarrow>
                             Inr (False,
                                  set_buffer p
                                    (b\<lparr>derived := ReadonlyDataBuffer
                                         (r\<lparr>saved_data := None, data := None\<rparr>)\<rparr>) w)
                         | Some q \<Rightarrow>
                             (case data r of
                                None \<Rightarrow> Inl NullDereference
                              | Some a \<Rightarrow>
                                  (case mem w a of
                                     None \<Rightarrow> Inl UseAfterFree
                                   | Some src \<Rightarrow>
                                       if length src < size then Inl OutOfBounds
                                       else
                                         Inr (True,
                                              set_buffer p
                                                (b\<lparr>derived := ReadonlyDataBuffer
                                                     (r\<lparr>saved_data := Some q, data := Some q\<rparr>)\<rparr>)
                                                (w\<lparr>mem := (mem w)(q \<mapsto> take size src)\<rparr>)))))
                   else Inr (True, w))
                in case copied of
                     Inl e \<Rightarrow> Inl e
                   | Inr (ok, w1) \<Rightarrow>
                       (case wlr_buffer_drop (Some p) w1 of
                          Inl e \<Rightarrow> Inl e
                        | Inr w2 \<Rightarrow> Inr (ok, w2)))
           | _ \<Rightarrow> Inl AssertionFailed))"

definition dmabuf_buffer_create ::
    "addr option \<Rightarrow> wlr_dmabuf_attributes \<Rightarrow> world \<Rightarrow> error + (addr option \<times> world)" where
  "dmabuf_buffer_create alloc attribs w =
     (case alloc of
        None \<Rightarrow> Inr (None, w)
      | Some p \<Rightarrow>
          (case wlr_buffer_init
                  (DmabufBuffer
                     \<lparr>dmabuf = \<lparr>a_width = 0, a_height = 0, a_flags = 0, n_planes = 0\<rparr>,
                      saved = False\<rparr>)
                  (a_width attribs) (a_height attribs) of
             Inl e \<Rightarrow> Inl e
           | Inr b \<Rightarrow>
               Inr (Some p,
                    set_buffer p
                      (b\<lparr>derived := DmabufBuffer \<lparr>dmabuf = attribs, saved = False\<rparr>\<rparr>) w)))"

definition dmabuf_buffer_drop :: "addr \<Rightarrow> bool \<Rightarrow> world \<Rightarrow> error + (bool \<times> world)" where
  "dmabuf_buffer_drop p copy_ok w =
     (case bufs w p of
        None \<Rightarrow> Inl UseAfterFree
      | Some b \<Rightarrow>
          (case derived b of
             DmabufBuffer d \<Rightarrow>
               (let (ok, w1) =
                  (if n_locks b > 0 then
                     (if \<not> copy_ok then
                        (False,
                         set_buffer p
                           (b\<lparr>derived := DmabufBuffer
                                (d\<lparr>dmabuf := \<lparr>a_width = 0, a_height = 0, a_flags = 0,
                                               n_planes = 0\<rparr>\<rparr>)\<rparr>) w)
                      else
                        (True, set_buffer p (b\<lparr>derived := DmabufBuffer (d\<lparr>saved := True\<rparr>)\<rparr>) w))
                   else (True, w))
                in case wlr_buffer_drop (Some p) w1 of
                     Inl e \<Rightarrow> Inl e
                   | Inr w2 \<Rightarrow> Inr (ok, w2))
           | _ \<Rightarrow> Inl AssertionFailed))"

section \<open>Histories of calls on one buffer\<close>

text \<open>
  A history is a list of calls on the buffer at one address. \<open>ResourceDestroy\<close> is the
  destruction of the protocol resource behind a client buffer, which runs the buffer's
  resource-destroy listener. Each step returns what the call returns (for
  \<open>BeginAccess\<close>, whether it succeeded; \<open>True\<close> for the calls that return nothing).
\<close>

datatype op = Lock | Unlock | Drop | BeginAccess | EndAccess | ResourceDestroy

definition resource_destroyed :: "addr \<Rightarrow> world \<Rightarrow> world" where
  "resource_destroyed p w =
     (case bufs w p of
        None \<Rightarrow> w
      | Some b \<Rightarrow>
          (case derived b of
             ClientBuffer c \<Rightarrow>
               (case resource c of
                  None \<Rightarrow> w
                | Some r \<Rightarrow>
                    client_buffer_resource_handle_destroy p (w\<lparr>resources := (resources w)(r := None)\<rparr>))
           | ShmClientBuffer s \<Rightarrow>
               (case shm_resource s of
                  None \<Rightarrow> w
                | Some r \<Rightarrow>
                    shm_client_buffer_resource_handle_destroy p
                      (w\<lparr>resources := (resources w)(r := None)\<rparr>))
           | _ \<Rightarrow> w))"

definition returning :: "bool \<Rightarrow> error + world \<Rightarrow> error + (bool \<times> world)" where
  "returning r x = (case x of Inl e \<Rightarrow> Inl e | Inr w \<Rightarrow> Inr (r, w))"

fun step :: "addr \<Rightarrow> op \<Rightarrow> world \<Rightarrow> error + (bool \<times> world)" where
  "step p Lock w = returning True (wlr_buffer_lock p w)"
| "step p Unlock w = returning True (wlr_buffer_unlock (Some p) w)"
| "step p Drop w = returning True (wlr_buffer_drop (Some p) w)"
| "step p BeginAccess w =
     (case buffer_begin_data_ptr_access p w of
        Inl e \<Rightarrow> Inl e
      | Inr (acc, w1) \<Rightarrow> Inr (acc \<noteq> None, w1))"
| "step p EndAccess w = returning True (buffer_end_data_ptr_access p w)"
| "step p ResourceDestroy w = Inr (True, resource_destroyed p w)"

fun run :: "addr \<Rightarrow> op list \<Rightarrow> world \<Rightarrow> error + (bool list \<times> world)" where
  "run p [] w = Inr ([], w)"
| "run p (x # xs) w =
     (case step p x w of
        Inl e \<Rightarrow> Inl e
      | Inr (r, w1) \<Rightarrow>
          (case run p xs w1 of
             Inl e \<Rightarrow> Inl e
           | Inr (rs, w2) \<Rightarrow> Inr (r # rs, w2)))"


section \<open>Textures\<close>

text \<open>
  Lines 37 to 128 and 167 to 419 of \<^verbatim>\<open>texture.c\<close>.
  The two format tables (\<^verbatim>\<open>get_gles2_format_from_drm\<close> and
  \<^verbatim>\<open>drm_get_pixel_format_info\<close>) are defined in other files of the renderer: they are
  parameters of the model, and of a format only the fields that this code reads are kept
  (\<open>bpp\<close>, the bits per pixel, is a 32-bit unsigned number). The answers of the allocator
  and of the GL and EGL library are parameters too. Strides, widths and heights are
  \<^verbatim>\<open>uint32_t\<close> in this file, so their arithmetic is that of 32-bit words.
\<close>

record wlr_pixel_format_info =
  bpp :: u32

record wlr_gles2_pixel_format =
  gf_drm_format :: u32
  gf_has_alpha :: bool

record format_tables =
  get_gles2_format_from_drm :: "u32 \<Rightarrow> wlr_gles2_pixel_format option"
  drm_get_pixel_format_info :: "u32 \<Rightarrow> wlr_pixel_format_info option"

record gpu_env =
  calloc_texture :: "addr option"
  gen_texture :: nat
  create_image :: "(nat \<times> bool) option"

definition DRM_FORMAT_INVALID :: u32 where
  "DRM_FORMAT_INVALID = 0"

definition WLR_DMABUF_ATTRIBUTES_FLAGS_Y_INVERT :: u32 where
  "WLR_DMABUF_ATTRIBUTES_FLAGS_Y_INVERT = 1"

definition gles2_get_texture :: "addr \<Rightarrow> world \<Rightarrow> wlr_gles2_texture option" where
  "gles2_get_texture tp w = find (\<lambda>t. self t = tp) (textures w)"

definition check_stride :: "wlr_pixel_format_info \<Rightarrow> u32 \<Rightarrow> u32 \<Rightarrow> error + bool" where
  "check_stride fmt strd wd =
     (if bpp fmt div 8 = 0 then Inl DivisionByZero
      else if strd mod (bpp fmt div 8) \<noteq> 0 then Inr False
      else if strd < wd * (bpp fmt div 8) then Inr False
      else Inr True)"

definition gles2_texture_write_pixels ::
    "format_tables \<Rightarrow> addr \<Rightarrow> u32 \<Rightarrow> u32 \<Rightarrow> u32 \<Rightarrow> u32 \<Rightarrow> u32 \<Rightarrow> u32 \<Rightarrow> u32 \<Rightarrow> addr option
       \<Rightarrow> world \<Rightarrow> error + (bool \<times> world)" where
  "gles2_texture_write_pixels tabs tp strd wd ht src_x src_y dst_x dst_y dat w =
     (case gles2_get_texture tp w of
        None \<Rightarrow> Inl UseAfterFree
      | Some t \<Rightarrow>
          if target t \<noteq> GL_TEXTURE_2D \<or> image t \<noteq> None then Inr (False, w)
          else
            (case get_gles2_format_from_drm tabs (drm_format t) of
               None \<Rightarrow> Inl AssertionFailed
             | Some fmt \<Rightarrow>
                 (case drm_get_pixel_format_info tabs (drm_format t) of
                    None \<Rightarrow> Inl AssertionFailed
                  | Some drm_fmt \<Rightarrow>
                      (case check_stride drm_fmt strd wd of
                         Inl e \<Rightarrow> Inl e
                       | Inr False \<Rightarrow> Inr (False, w)
                       | Inr True \<Rightarrow>
                           Inr (True,
                                emit (map Gpu
                                  [EglSaveContext, EglMakeCurrent, PushDebug,
                                   GlBindTexture GL_TEXTURE_2D (tex t),
                                   GlPixelStorei GL_UNPACK_ROW_LENGTH_EXT
                                     (strd div (bpp drm_fmt div 8)),
                                   GlPixelStorei GL_UNPACK_SKIP_PIXELS_EXT src_x,
                                   GlPixelStorei GL_UNPACK_SKIP_ROWS_EXT src_y,
                                   GlTexSubImage2D dst_x dst_y wd ht dat,
                                   GlPixelStorei GL_UNPACK_ROW_LENGTH_EXT 0,
                                   GlPixelStorei GL_UNPACK_SKIP_PIXELS_EXT 0,
                                   GlPixelStorei GL_UNPACK_SKIP_ROWS_EXT 0,
                                   GlBindTexture GL_TEXTURE_2D 0,
                                   PopDebug, EglRestoreContext]) w)))))"

definition gles2_texture_invalidate :: "wlr_gles2_texture \<Rightarrow> world \<Rightarrow> bool \<times> world" where
  "gles2_texture_invalidate t w =
     (case image t of
        None \<Rightarrow> (False, w)
      | Some img \<Rightarrow>
          if target t = GL_TEXTURE_EXTERNAL_OES then (True, w)
          else
            (True,
             emit (map Gpu
               [EglSaveContext, EglMakeCurrent, PushDebug,
                GlBindTexture (target t) (tex t),
                GlEGLImageTargetTexture2DOES (target t) img,
                GlBindTexture (target t) 0,
                PopDebug, EglRestoreContext]) w))"

text \<open>
  \<^verbatim>\<open>gles2_texture_create\<close> puts a zeroed texture at the head of the renderer's list and its
  callers fill the fields in; the model builds the texture with the fields it has when the
  caller returns it, and adds nothing to the list on the paths that remove it again.
\<close>

definition gles2_texture_from_pixels ::
    "format_tables \<Rightarrow> gpu_env \<Rightarrow> u32 \<Rightarrow> u32 \<Rightarrow> u32 \<Rightarrow> u32 \<Rightarrow> addr option \<Rightarrow> world
       \<Rightarrow> error + (addr option \<times> world)" where
  "gles2_texture_from_pixels tabs env fmt_code strd wd ht dat w =
     (case get_gles2_format_from_drm tabs fmt_code of
        None \<Rightarrow> Inr (None, w)
      | Some fmt \<Rightarrow>
          (case drm_get_pixel_format_info tabs fmt_code of
             None \<Rightarrow> Inl AssertionFailed
           | Some drm_fmt \<Rightarrow>
               (case check_stride drm_fmt strd wd of
                  Inl e \<Rightarrow> Inl e
                | Inr False \<Rightarrow> Inr (None, w)
                | Inr True \<Rightarrow>
                    (case calloc_texture env of
                       None \<Rightarrow> Inr (None, w)
                     | Some ta \<Rightarrow>
                         (let t = \<lparr>self = ta, t_width = wd, t_height = ht,
                                   target = GL_TEXTURE_2D, image = None,
                                   tex = gen_texture env, has_alpha = gf_has_alpha fmt,
                                   drm_format = gf_drm_format fmt, inverted_y = False,
                                   buffer = None\<rparr>
                          in Inr (Some ta,
                                  emit (map Gpu
                                    [EglSaveContext, EglMakeCurrent, PushDebug,
                                     GlGenTextures (tex t),
                                     GlBindTexture GL_TEXTURE_2D (tex t),
                                     GlTexParameteri GL_TEXTURE_2D,
                                     GlTexParameteri GL_TEXTURE_2D,
                                     GlPixelStorei GL_UNPACK_ROW_LENGTH_EXT
                                       (strd div (bpp drm_fmt div 8)),
                                     GlTexImage2D wd ht dat,
                                     GlPixelStorei GL_UNPACK_ROW_LENGTH_EXT 0,
                                     GlBindTexture GL_TEXTURE_2D 0,
                                     PopDebug, EglRestoreContext])
                                    (w\<lparr>textures := t # textures w\<rparr>)))))))"

definition gles2_texture_from_dmabuf ::
    "gpu_env \<Rightarrow> wlr_dmabuf_attributes \<Rightarrow> world \<Rightarrow> error + (addr option \<times> world)" where
  "gles2_texture_from_dmabuf env attribs w =
     (if \<not> procs_glEGLImageTargetTexture2DOES w then Inr (None, w)
      else
        (case calloc_texture env of
           None \<Rightarrow> Inr (None, w)
         | Some ta \<Rightarrow>
             (let w1 = emit (map Gpu [EglSaveContext, EglMakeCurrent, EglCreateImageFromDmabuf]) w
              in case create_image env of
                   None \<Rightarrow> Inr (None, emit [Gpu EglRestoreContext] w1)
                 | Some (img, external_only) \<Rightarrow>
                     (let t = \<lparr>self = ta,
                               t_width = word_of_int (a_width attribs),
                               t_height = word_of_int (a_height attribs),
                               target = (if external_only then GL_TEXTURE_EXTERNAL_OES
                                         else GL_TEXTURE_2D),
                               image = Some img,
                               tex = gen_texture env, has_alpha = True,
                               drm_format = DRM_FORMAT_INVALID,
                               inverted_y =
                                 (and (a_flags attribs) WLR_DMABUF_ATTRIBUTES_FLAGS_Y_INVERT \<noteq> 0),
                               buffer = None\<rparr>
                      in Inr (Some ta,
                              emit (map Gpu
                                [PushDebug,
                                 GlGenTextures (tex t),
                                 GlBindTexture (target t) (tex t),
                                 GlTexParameteri (target t),
                                 GlTexParameteri (target t),
                                 GlEGLImageTargetTexture2DOES (target t) img,
                                 GlBindTexture (target t) 0,
                                 PopDebug, EglRestoreContext])
                                (w1\<lparr>textures := t # textures w1\<rparr>))))))"

definition gles2_texture_from_dmabuf_buffer ::
    "gpu_env \<Rightarrow> addr \<Rightarrow> wlr_dmabuf_attributes \<Rightarrow> world \<Rightarrow> error + (addr option \<times> world)" where
  "gles2_texture_from_dmabuf_buffer env p attribs w =
     (case find (\<lambda>t. buffer t = Some p) (textures w) of
        Some t \<Rightarrow>
          (case gles2_texture_invalidate t w of
             (False, w1) \<Rightarrow> Inr (None, w1)
           | (True, w1) \<Rightarrow>
               (case wlr_buffer_lock p w1 of
                  Inl e \<Rightarrow> Inl e
                | Inr w2 \<Rightarrow> Inr (Some (self t), w2)))
      | None \<Rightarrow>
          (case gles2_texture_from_dmabuf env attribs w of
             Inl e \<Rightarrow> Inl e
           | Inr (None, w1) \<Rightarrow> Inr (None, w1)
           | Inr (Some ta, w1) \<Rightarrow>
               (case wlr_buffer_lock p w1 of
                  Inl e \<Rightarrow> Inl e
                | Inr w2 \<Rightarrow>
                    Inr (Some ta,
                         w2\<lparr>textures :=
                              map (\<lambda>t. if self t = ta then t\<lparr>buffer := Some p\<rparr> else t)
                                (textures w2)\<rparr>))))"

definition gles2_texture_from_buffer ::
    "format_tables \<Rightarrow> gpu_env \<Rightarrow> addr \<Rightarrow> world \<Rightarrow> error + (addr option \<times> world)" where
  "gles2_texture_from_buffer tabs env p w =
     (case wlr_buffer_get_dmabuf p w of
        Inl e \<Rightarrow> Inl e
      | Inr (Some attribs) \<Rightarrow> gles2_texture_from_dmabuf_buffer env p attribs w
      | Inr None \<Rightarrow>
          (case buffer_begin_data_ptr_access p w of
             Inl e \<Rightarrow> Inl e
           | Inr (None, w1) \<Rightarrow> Inr (None, w1)
           | Inr (Some (dat, fmt_code, strd), w1) \<Rightarrow>
               (case bufs w1 p of
                  None \<Rightarrow> Inl UseAfterFree
                | Some b \<Rightarrow>
                    (case gles2_texture_from_pixels tabs env fmt_code (ucast strd)
                            (word_of_int (width b)) (word_of_int (height b)) dat w1 of
                       Inl e \<Rightarrow> Inl e
                     | Inr (t, w2) \<Rightarrow>
                         (case buffer_end_data_ptr_access p w2 of
                            Inl e \<Rightarrow> Inl e
                          | Inr w3 \<Rightarrow> Inr (t, w3))))))"

section \<open>Damage updates of a client buffer\<close>

text \<open>
  Lines 288 to 350 of \<^verbatim>\<open>wlr_buffer.c\<close>. A damage region is the list of its rectangles, in the order
  \<^verbatim>\<open>pixman_region32_rectangles\<close> gives them. \<^verbatim>\<open>wlr_texture_write_pixels\<close> calls the
  \<^verbatim>\<open>write_pixels\<close> entry of the texture's implementation table, which for the textures of
  this renderer is \<open>gles2_texture_write_pixels\<close>.
\<close>

record pixman_box32 =
  x1 :: "32 word"
  y1 :: "32 word"
  x2 :: "32 word"
  y2 :: "32 word"

definition wl_shm_buffer_get :: "addr option \<Rightarrow> world \<Rightarrow> wl_shm_buffer option" where
  "wl_shm_buffer_get res w =
     (case res of
        None \<Rightarrow> None
      | Some r \<Rightarrow> (case resources w r of Some (ShmResource sb) \<Rightarrow> Some sb | _ \<Rightarrow> None))"

fun write_damage ::
    "format_tables \<Rightarrow> addr \<Rightarrow> u32 \<Rightarrow> addr option \<Rightarrow> pixman_box32 list \<Rightarrow> world
       \<Rightarrow> error + (bool \<times> world)" where
  "write_damage tabs tp strd dat [] w = Inr (True, w)"
| "write_damage tabs tp strd dat (r # rs) w =
     (case gles2_texture_write_pixels tabs tp strd (x2 r - x1 r) (y2 r - y1 r)
             (x1 r) (y1 r) (x1 r) (y1 r) dat w of
        Inl e \<Rightarrow> Inl e
      | Inr (False, w1) \<Rightarrow> Inr (False, w1)
      | Inr (True, w1) \<Rightarrow> write_damage tabs tp strd dat rs w1)"

definition wlr_client_buffer_apply_damage ::
    "format_tables \<Rightarrow> addr \<Rightarrow> addr \<Rightarrow> pixman_box32 list \<Rightarrow> world
       \<Rightarrow> error + (addr option \<times> world)" where
  "wlr_client_buffer_apply_damage tabs p res damage w =
     (case resources w res of
        None \<Rightarrow> Inl AssertionFailed
      | Some _ \<Rightarrow>
          (case bufs w p of
             None \<Rightarrow> Inl UseAfterFree
           | Some b \<Rightarrow>
               (case derived b of
                  ClientBuffer c \<Rightarrow>
                    if n_locks b > 1 then Inr (None, w)
                    else
                      (case (wl_shm_buffer_get (Some res) w, wl_shm_buffer_get (resource c) w) of
                         (Some shm_buf, Some old_shm_buf) \<Rightarrow>
                           if sb_format shm_buf \<noteq> sb_format old_shm_buf then Inr (None, w)
                           else
                             (case gles2_get_texture (texture c) w of
                                None \<Rightarrow> Inl UseAfterFree
                              | Some t \<Rightarrow>
                                  if sb_width shm_buf \<noteq> t_width t \<or> sb_height shm_buf \<noteq> t_height t
                                  then Inr (None, w)
                                  else
                                    (case write_damage tabs (texture c) (sb_stride shm_buf)
                                            (Some (sb_data shm_buf)) damage
                                            (emit [WlShmBufferBeginAccess] w) of
                                       Inl e \<Rightarrow> Inl e
                                     | Inr (False, w1) \<Rightarrow>
                                         Inr (None, emit [WlShmBufferEndAccess] w1)
                                     | Inr (True, w1) \<Rightarrow>
                                         Inr (Some p,
                                              set_buffer p
                                                (b\<lparr>derived := ClientBuffer
                                                     (c\<lparr>resource := Some res,
                                                        resource_released := True\<rparr>)\<rparr>)
                                                (emit [WlShmBufferEndAccess, WlBufferSendRelease res]
                                                   w1))))
                       | _ \<Rightarrow> Inr (None, w))
                | _ \<Rightarrow> Inl AssertionFailed)))"

text \<open>
  A history of calls on a client buffer also has damage updates, each with the resource
  that the client has attached and the damaged rectangles. A damage update returns
  whether it succeeded (the code returns the buffer, or \<^verbatim>\<open>NULL\<close>).
\<close>

datatype client_op = Call op | ApplyDamage addr "pixman_box32 list"

fun client_step :: "format_tables \<Rightarrow> addr \<Rightarrow> client_op \<Rightarrow> world \<Rightarrow> error + (bool \<times> world)" where
  "client_step tabs p (Call x) w = step p x w"
| "client_step tabs p (ApplyDamage res damage) w =
     (case wlr_client_buffer_apply_damage tabs p res damage w of
        Inl e \<Rightarrow> Inl e
      | Inr (r, w1) \<Rightarrow> Inr (r \<noteq> None, w1))"

fun client_run ::
    "format_tables \<Rightarrow> addr \<Rightarrow> client_op list \<Rightarrow> world \<Rightarrow> error + (bool list \<times> world)" where
  "client_run tabs p [] w = Inr ([], w)"
| "client_run tabs p (x # xs) w =
     (case client_step tabs p x w of
        Inl e \<Rightarrow> Inl e
      | Inr (r, w1) \<Rightarrow>
          (case client_run tabs p xs w1 of
             Inl e \<Rightarrow> Inl e
           | Inr (rs, w2) \<Rightarrow> Inr (r # rs, w2)))"

section \<open>Observations on traces and histories\<close>

text \<open>
  The definitions of this section are not part of the code: they read a trace or a
  history of calls, and are used to state and prove its properties.
\<close>

subsection \<open>Reading a trace\<close>

text \<open>
  The destroy signal and the free of the buffer at \<open>p\<close>, the emissions of its release
  signal, the release acknowledgments sent to protocol resources, and the pixel uploads.
\<close>

definition destroy_events :: "addr \<Rightarrow> event list \<Rightarrow> event list" where
  "destroy_events p es = filter (\<lambda>e. e = EvDestroy p \<or> e = EvFree p) es"

definition release_events :: "addr \<Rightarrow> event list \<Rightarrow> event list" where
  "release_events p es = filter (\<lambda>e. e = EvRelease p) es"

fun is_ack :: "event \<Rightarrow> bool" where
  "is_ack (WlBufferSendRelease r) = True"
| "is_ack e = False"

definition acks :: "event list \<Rightarrow> nat" where
  "acks es = length (filter is_ack es)"

fun is_upload :: "event \<Rightarrow> bool" where
  "is_upload (Gpu (GlTexSubImage2D dx dy wd ht dat)) = True"
| "is_upload (Gpu (GlTexImage2D wd ht dat)) = True"
| "is_upload e = False"

definition upload_of :: "addr option \<Rightarrow> pixman_box32 \<Rightarrow> event" where
  "upload_of dat r = Gpu (GlTexSubImage2D (x1 r) (y1 r) (x2 r - x1 r) (y2 r - y1 r) dat)"

subsection \<open>What the listeners and the backends send\<close>

text \<open>
  The messages that the backend's destroy function sends before it frees the buffer, the
  messages that the listener of the release signal sends, and what that listener does to
  the fields of the buffer.
\<close>

definition destroy_msgs :: "wlr_buffer \<Rightarrow> event list" where
  "destroy_msgs b =
     (case derived b of
        ClientBuffer c \<Rightarrow>
          (case resource c of
             None \<Rightarrow> []
           | Some r \<Rightarrow> if \<not> resource_released c then [WlBufferSendRelease r] else [])
          @ [WlrTextureDestroy (texture c)]
      | ShmClientBuffer s \<Rightarrow>
          (case saved_shm_pool s of None \<Rightarrow> [] | Some pool \<Rightarrow> [WlShmPoolUnref pool])
      | ReadonlyDataBuffer r \<Rightarrow> []
      | DmabufBuffer d \<Rightarrow> if saved d then [DmabufAttributesFinish] else [])"

definition release_msgs :: "wlr_buffer \<Rightarrow> event list" where
  "release_msgs b =
     (case derived b of
        ClientBuffer c \<Rightarrow>
          (case resource c of
             None \<Rightarrow> []
           | Some r \<Rightarrow> if \<not> resource_released c then [WlBufferSendRelease r] else [])
      | ShmClientBuffer s \<Rightarrow>
          (case shm_resource s of None \<Rightarrow> [] | Some r \<Rightarrow> [WlBufferSendRelease r])
      | _ \<Rightarrow> [])"

definition after_release :: "backend \<Rightarrow> backend" where
  "after_release d =
     (case d of
        ClientBuffer c \<Rightarrow>
          (case resource c of
             None \<Rightarrow> d
           | Some r \<Rightarrow> if \<not> resource_released c
                       then ClientBuffer (c\<lparr>resource_released := True\<rparr>) else d)
      | _ \<Rightarrow> d)"

subsection \<open>The lifecycle fields\<close>

text \<open>
  The part of a buffer that the lifecycle is about (\<open>dropped\<close>, \<open>n_locks\<close>,
  \<open>accessing_data_ptr\<close>): when a call passes its assertions, what it makes of these
  fields, and the state in which a buffer is destroyed. \<open>effect\<close> relates the worlds
  before and after one call, and \<open>tracked\<close> a world to the history that led to it.
\<close>

definition fields :: "wlr_buffer \<Rightarrow> bool \<times> nat \<times> bool" where
  "fields b = (dropped b, n_locks b, accessing_data_ptr b)"

fun enabled :: "op \<Rightarrow> bool \<times> nat \<times> bool \<Rightarrow> bool" where
  "enabled Lock (d, n, a) = True"
| "enabled Unlock (d, n, a) = (0 < n \<and> \<not> (d \<and> n = 1 \<and> a))"
| "enabled Drop (d, n, a) = (\<not> d \<and> \<not> (n = 0 \<and> a))"
| "enabled BeginAccess (d, n, a) = (\<not> a)"
| "enabled EndAccess (d, n, a) = a"
| "enabled ResourceDestroy (d, n, a) = True"

fun post :: "op \<Rightarrow> bool \<Rightarrow> bool \<times> nat \<times> bool \<Rightarrow> bool \<times> nat \<times> bool" where
  "post Lock r (d, n, a) = (d, Suc n, a)"
| "post Unlock r (d, n, a) = (d, n - 1, a)"
| "post Drop r (d, n, a) = (True, n, a)"
| "post BeginAccess r (d, n, a) = (d, n, r)"
| "post EndAccess r (d, n, a) = (d, n, False)"
| "post ResourceDestroy r (d, n, a) = (d, n, a)"

definition dead :: "bool \<times> nat \<times> bool \<Rightarrow> bool" where
  "dead f = (fst f \<and> fst (snd f) = 0)"

definition effect :: "addr \<Rightarrow> op \<Rightarrow> bool \<Rightarrow> wlr_buffer \<Rightarrow> world \<Rightarrow> world \<Rightarrow> bool" where
  "effect p x r b w w' =
     (\<exists>es. trace w' = trace w @ es
        \<and> release_events p es = (if x = Unlock \<and> n_locks b = 1 then [EvRelease p] else [])
        \<and> (if dead (post x r (fields b))
            then bufs w' p = None \<and> destroy_events p es = [EvDestroy p, EvFree p]
            else (\<exists>b'. bufs w' p = Some b' \<and> fields b' = post x r (fields b))
                   \<and> destroy_events p es = []))"

definition tracked :: "addr \<Rightarrow> event list \<Rightarrow> op list \<Rightarrow> world \<Rightarrow> bool" where
  "tracked p t0 ops w =
     (\<exists>es. trace w = t0 @ es
        \<and> (case bufs w p of
             None \<Rightarrow>
               destroy_events p es = [EvDestroy p, EvFree p]
               \<and> Drop \<in> set ops \<and> count_list ops Lock = count_list ops Unlock
           | Some b \<Rightarrow>
               destroy_events p es = []
               \<and> dropped b = (Drop \<in> set ops)
               \<and> n_locks b + count_list ops Unlock = count_list ops Lock
               \<and> \<not> dead (fields b)))"

subsection \<open>Reading a history\<close>

text \<open>
  \<open>held d\<close> holds of a history of lock and unlock calls that starts under \<open>d\<close> locks,
  keeps at least one lock until its last call and ends with none.
  \<open>zero_transitions\<close> counts the unlock calls of a history that are made under exactly
  one lock. \<open>access_open\<close> reads a history together with the results of its calls: a
  data access is open when a begin that succeeded has not been followed by an end.
  \<open>poisoned\<close> holds of a read-only data buffer whose data pointer is \<^verbatim>\<open>NULL\<close>.
  \<open>updates\<close> counts the damage updates of a history that succeeded.
\<close>

fun held :: "nat \<Rightarrow> op list \<Rightarrow> bool" where
  "held d [] = False"
| "held d (Lock # xs) = held (Suc d) xs"
| "held d (Unlock # xs) = (if d = 1 then xs = [] else 1 < d \<and> held (d - 1) xs)"
| "held d (x # xs) = False"

definition zero_transitions :: "op list \<Rightarrow> nat" where
  "zero_transitions ops =
     length (filter (\<lambda>k. ops ! k = Unlock
                         \<and> count_list (take k ops) Lock = Suc (count_list (take k ops) Unlock))
               [0..<length ops])"

definition release_tracked :: "addr \<Rightarrow> event list \<Rightarrow> op list \<Rightarrow> world \<Rightarrow> bool" where
  "release_tracked p t0 ops w =
     (\<exists>es. trace w = t0 @ es
        \<and> release_events p es = replicate (zero_transitions ops) (EvRelease p))"



definition poisoned :: "addr \<Rightarrow> world \<Rightarrow> bool" where
  "poisoned p w =
     (case bufs w p of
        None \<Rightarrow> True
      | Some b \<Rightarrow> (case derived b of ReadonlyDataBuffer r \<Rightarrow> data r = None | _ \<Rightarrow> False))"

fun updates :: "client_op list \<Rightarrow> bool list \<Rightarrow> nat" where
  "updates (ApplyDamage res damage # xs) (r # rs) = (if r then 1 else 0) + updates xs rs"
| "updates (Call x # xs) (r # rs) = updates xs rs"
| "updates xs rs = 0"

section \<open>Concrete worlds\<close>

text \<open>
  A 4 by 4 read-only data buffer of format ARGB8888 and stride 16 at address 0, over 64
  bytes of caller memory at address 100; the same buffer under one lock.
\<close>

definition example_buffer :: wlr_buffer where
  "example_buffer =
     \<lparr>width = 4, height = 4, dropped = False, n_locks = 0, accessing_data_ptr = False,
      derived = ReadonlyDataBuffer
        \<lparr>data = Some 100, format = 0x34325241, stride = 16, saved_data = None\<rparr>\<rparr>"

definition example_world :: world where
  "example_world =
     \<lparr>bufs = [0 \<mapsto> example_buffer], textures = [],
      procs_glEGLImageTargetTexture2DOES = True, resources = Map.empty,
      mem = [100 \<mapsto> map of_nat [0..<64]], trace = []\<rparr>"

definition example_locked :: world where
  "example_locked = set_buffer 0 (example_buffer\<lparr>n_locks := 1\<rparr>) example_world"

text \<open>Format tables that know ARGB8888 only, and answers of the allocator and of EGL.\<close>

definition example_tables :: format_tables where
  "example_tables =
     \<lparr>get_gles2_format_from_drm =
        (\<lambda>c. if c = 0x34325241 then Some \<lparr>gf_drm_format = 0x34325241, gf_has_alpha = True\<rparr>
             else None),
      drm_get_pixel_format_info = (\<lambda>c. if c = 0x34325241 then Some \<lparr>bpp = 32\<rparr> else None)\<rparr>"

definition example_env :: gpu_env where
  "example_env = \<lparr>calloc_texture = Some 7, gen_texture = 1, create_image = Some (5, False)\<rparr>"

text \<open>
  A mutable texture and an imported one; a client buffer over a shared-memory resource
  that owns the mutable texture, as \<open>wlr_client_buffer_import\<close> returns it (dropped,
  under one lock, its resource released); a DMA-BUF buffer under one lock; a
  shared-memory client buffer as \<open>wlr_client_buffer_import\<close> holds it while the texture
  is made (dropped, under one lock); a client buffer over a \<^verbatim>\<open>wl_drm\<close> resource, neither
  locked nor dropped.
\<close>

definition example_texture :: wlr_gles2_texture where
  "example_texture =
     \<lparr>self = 7, t_width = 4, t_height = 4, target = GL_TEXTURE_2D, image = None, tex = 1,
      has_alpha = True, drm_format = 0x34325241, inverted_y = False, buffer = None\<rparr>"

definition example_imported :: world where
  "example_imported =
     example_world\<lparr>textures :=
       [\<lparr>self = 7, t_width = 4, t_height = 4, target = GL_TEXTURE_EXTERNAL_OES,
         image = Some 5, tex = 1, has_alpha = True, drm_format = DRM_FORMAT_INVALID,
         inverted_y = False, buffer = None\<rparr>]\<rparr>"

definition example_shm :: wl_shm_buffer where
  "example_shm =
     \<lparr>sb_data = 300, sb_pool = 400, sb_format = 0, sb_stride = 16, sb_width = 4, sb_height = 4\<rparr>"

definition example_client_buffer :: wlr_buffer where
  "example_client_buffer =
     \<lparr>width = 4, height = 4, dropped = True, n_locks = 1, accessing_data_ptr = False,
      derived = ClientBuffer \<lparr>resource = Some 1, resource_released = True, texture = 7\<rparr>\<rparr>"

definition example_client_world :: world where
  "example_client_world =
     \<lparr>bufs = [0 \<mapsto> example_client_buffer], textures = [example_texture],
      procs_glEGLImageTargetTexture2DOES = True,
      resources = [1 \<mapsto> ShmResource example_shm, 2 \<mapsto> ShmResource example_shm],
      mem = Map.empty, trace = []\<rparr>"

definition example_dmabuf_world :: world where
  "example_dmabuf_world =
     \<lparr>bufs = [0 \<mapsto> \<lparr>width = 4, height = 4, dropped = False, n_locks = 1,
                      accessing_data_ptr = False,
                      derived = DmabufBuffer
                        \<lparr>dmabuf = \<lparr>a_width = 4, a_height = 4, a_flags = 0, n_planes = 1\<rparr>,
                         saved = False\<rparr>\<rparr>],
      textures = [], procs_glEGLImageTargetTexture2DOES = True,
      resources = Map.empty, mem = Map.empty, trace = []\<rparr>"

definition example_shm_client_world :: world where
  "example_shm_client_world =
     \<lparr>bufs = [0 \<mapsto> \<lparr>width = 4, height = 4, dropped = True, n_locks = 1,
                      accessing_data_ptr = False,
                      derived = ShmClientBuffer
                        \<lparr>shm_resource = Some 1, shm_buffer = Some example_shm,
                         shm_format = 0x34325241, shm_stride = 16,
                         saved_shm_pool = None, shm_saved_data = None\<rparr>\<rparr>],
      textures = [], procs_glEGLImageTargetTexture2DOES = True,
      resources = [1 \<mapsto> ShmResource example_shm], mem = Map.empty, trace = []\<rparr>"

definition example_drm_client_world :: world where
  "example_drm_client_world =
     \<lparr>bufs = [0 \<mapsto> \<lparr>width = 4, height = 4, dropped = False, n_locks = 0,
                      accessing_data_ptr = False,
                      derived = ClientBuffer
                        \<lparr>resource = Some 1, resource_released = False, texture = 7\<rparr>\<rparr>],
      textures = [], procs_glEGLImageTargetTexture2DOES = True,
      resources = [1 \<mapsto> WlDrmResource], mem = Map.empty, trace = []\<rparr>"

section \<open>Basic facts\<close>

lemma emit_simps [simp]:
  "bufs (emit es w) = bufs w" "trace (emit es w) = trace w @ es"
  "textures (emit es w) = textures w" "mem (emit es w) = mem w"
  "resources (emit es w) = resources w"
  "procs_glEGLImageTargetTexture2DOES (emit es w) = procs_glEGLImageTargetTexture2DOES w"
  by (simp_all add: emit_def)

lemma set_buffer_simps [simp]:
  "bufs (set_buffer p b w) = (bufs w)(p \<mapsto> b)" "trace (set_buffer p b w) = trace w"
  "textures (set_buffer p b w) = textures w" "mem (set_buffer p b w) = mem w"
  "resources (set_buffer p b w) = resources w"
  "procs_glEGLImageTargetTexture2DOES (set_buffer p b w) = procs_glEGLImageTargetTexture2DOES w"
  by (simp_all add: set_buffer_def)

lemma free_buffer_simps [simp]:
  "bufs (free_buffer p w) = (bufs w)(p := None)" "trace (free_buffer p w) = trace w @ [EvFree p]"
  "textures (free_buffer p w) = textures w" "mem (free_buffer p w) = mem w"
  "resources (free_buffer p w) = resources w"
  by (simp_all add: free_buffer_def)

lemma destroy_events_append [simp]:
  "destroy_events p (xs @ ys) = destroy_events p xs @ destroy_events p ys"
  by (simp add: destroy_events_def)

lemma destroy_events_simps [simp]:
  "destroy_events p [] = []"
  "destroy_events p (EvDestroy q # es) = (if q = p then [EvDestroy p] else []) @ destroy_events p es"
  "destroy_events p (EvFree q # es) = (if q = p then [EvFree p] else []) @ destroy_events p es"
  "destroy_events p (EvRelease q # es) = destroy_events p es"
  "destroy_events p (WlBufferSendRelease q # es) = destroy_events p es"
  "destroy_events p (WlrTextureDestroy q # es) = destroy_events p es"
  "destroy_events p (WlShmBufferBeginAccess # es) = destroy_events p es"
  "destroy_events p (WlShmBufferEndAccess # es) = destroy_events p es"
  "destroy_events p (WlShmBufferRefPool q # es) = destroy_events p es"
  "destroy_events p (WlShmPoolUnref q # es) = destroy_events p es"
  "destroy_events p (DmabufAttributesFinish # es) = destroy_events p es"
  "destroy_events p (Gpu g # es) = destroy_events p es"
  by (auto simp add: destroy_events_def)

lemma fold_texture_destroy_bufs [simp]:
  "bufs (fold texture_handle_buffer_destroy ts w) = bufs w"
  by (induction ts arbitrary: w)
     (simp_all add: texture_handle_buffer_destroy_def gles2_texture_destroy_def)

lemma fold_texture_destroy_mem [simp]:
  "mem (fold texture_handle_buffer_destroy ts w) = mem w"
  by (induction ts arbitrary: w)
     (simp_all add: texture_handle_buffer_destroy_def gles2_texture_destroy_def)

lemma texture_destroy_trace:
  "trace (texture_handle_buffer_destroy t w) = trace w @ map Gpu [EglSaveContext, EglMakeCurrent, PushDebug, GlDeleteTextures (tex t),
                    EglDestroyImage (image t), PopDebug, EglRestoreContext]"
  by (simp add: texture_handle_buffer_destroy_def gles2_texture_destroy_def)

lemma fold_texture_destroy_trace:
  "\<exists>gs. trace (fold texture_handle_buffer_destroy ts w) = trace w @ map Gpu gs"
proof (induction ts arbitrary: w)
  case Nil
  show ?case by (rule exI [of _ "[]"]) simp
next
  case (Cons t ts)
  obtain gs where gs: "trace (fold texture_handle_buffer_destroy ts (texture_handle_buffer_destroy t w))
     = trace (texture_handle_buffer_destroy t w) @ map Gpu gs"
    using Cons.IH by blast
  show ?case
    apply (rule exI [of _ "[EglSaveContext, EglMakeCurrent, PushDebug, GlDeleteTextures (tex t),
                    EglDestroyImage (image t), PopDebug, EglRestoreContext] @ gs"])
    apply (simp only: fold_simps gs texture_destroy_trace map_append append_assoc)
    done
qed

lemma fold_texture_destroy_resources [simp]:
  "resources (fold texture_handle_buffer_destroy ts w) = resources w"
  by (induction ts arbitrary: w)
     (simp_all add: texture_handle_buffer_destroy_def gles2_texture_destroy_def)

lemma signal_emit_destroy_bufs [simp]: "bufs (signal_emit_destroy p w) = bufs w"
  by (simp add: signal_emit_destroy_def)

lemma signal_emit_destroy_trace:
  "\<exists>gs. trace (signal_emit_destroy p w) = trace w @ EvDestroy p # map Gpu gs"
  using fold_texture_destroy_trace [of "filter (\<lambda>t. buffer t = Some p) (textures w)" "emit [EvDestroy p] w"]
  by (auto simp add: signal_emit_destroy_def)

section \<open>Single calls on a live buffer\<close>

text \<open>The two constructors that are modelled return a buffer with no lock and no flag set.\<close>

lemma readonly_data_buffer_create_fresh:
  "readonly_data_buffer_create (Some p) fmt strd wd ht dat w
     = Inr (Some p,
            set_buffer p
              \<lparr>width = sint wd, height = sint ht, dropped = False, n_locks = 0,
               accessing_data_ptr = False,
               derived = ReadonlyDataBuffer
                 \<lparr>data = dat, format = fmt, stride = strd, saved_data = None\<rparr>\<rparr> w)"
  by (simp add: readonly_data_buffer_create_def wlr_buffer_init_def readonly_data_buffer_impl_def)

lemma dmabuf_buffer_create_fresh:
  "dmabuf_buffer_create (Some p) attribs w
     = Inr (Some p,
            set_buffer p
              \<lparr>width = a_width attribs, height = a_height attribs, dropped = False,
               n_locks = 0, accessing_data_ptr = False,
               derived = DmabufBuffer \<lparr>dmabuf = attribs, saved = False\<rparr>\<rparr> w)"
  by (simp add: dmabuf_buffer_create_def wlr_buffer_init_def dmabuf_buffer_impl_def)

lemma example_world_created:
  "readonly_data_buffer_create (Some 0) 0x34325241 16 4 4 (Some 100)
     (example_world\<lparr>bufs := Map.empty\<rparr>) = Inr (Some 0, example_world)"
  by (simp add: readonly_data_buffer_create_fresh example_world_def example_buffer_def
        set_buffer_def)

lemma lock_live:
  "bufs w p = Some b \<Longrightarrow>
     wlr_buffer_lock p w = Inr (set_buffer p (b\<lparr>n_locks := Suc (n_locks b)\<rparr>) w)"
  by (simp add: wlr_buffer_lock_def)

lemma impl_destroy_live:
  assumes "bufs w p = Some b"
  shows "\<exists>w'. destroy (impl b) p w = Inr w' \<and> bufs w' = (bufs w)(p := None)
           \<and> trace w' = trace w @ destroy_msgs b @ [EvFree p]
           \<and> textures w' = textures w \<and> resources w' = resources w"
  using assms
  by (cases "derived b")
     (auto simp add: client_buffer_impl_def shm_client_buffer_impl_def
        readonly_data_buffer_impl_def dmabuf_buffer_impl_def destroy_msgs_def
        client_buffer_destroy_def shm_client_buffer_destroy_def
        readonly_data_buffer_destroy_def dmabuf_buffer_destroy_def Let_def
        split: option.splits)

lemma consider_destroy_keep:
  "bufs w p = Some b \<Longrightarrow> \<not> dropped b \<or> 0 < n_locks b \<Longrightarrow> buffer_consider_destroy p w = Inr w"
  by (auto simp add: buffer_consider_destroy_def)

lemma consider_destroy_accessing:
  "bufs w p = Some b \<Longrightarrow> dropped b \<Longrightarrow> n_locks b = 0 \<Longrightarrow> accessing_data_ptr b \<Longrightarrow>
     buffer_consider_destroy p w = Inl AssertionFailed"
  by (simp add: buffer_consider_destroy_def)

lemma consider_destroy_fire:
  assumes "bufs w p = Some b" "dropped b" "n_locks b = 0" "\<not> accessing_data_ptr b"
  shows "\<exists>w' gs. buffer_consider_destroy p w = Inr w' \<and> bufs w' = (bufs w)(p := None)
           \<and> trace w' = trace w @ EvDestroy p # map Gpu gs @ destroy_msgs b @ [EvFree p]
           \<and> resources w' = resources w"
proof -
  obtain gs where gs: "trace (signal_emit_destroy p w) = trace w @ EvDestroy p # map Gpu gs"
    using signal_emit_destroy_trace by blast
  have live: "bufs (signal_emit_destroy p w) p = Some b"
    using assms(1) by simp
  obtain w' where w': "destroy (impl b) p (signal_emit_destroy p w) = Inr w'"
      "bufs w' = (bufs (signal_emit_destroy p w))(p := None)"
      "trace w' = trace (signal_emit_destroy p w) @ destroy_msgs b @ [EvFree p]"
      "resources w' = resources (signal_emit_destroy p w)"
    using impl_destroy_live [OF live] by blast
  have res: "resources (signal_emit_destroy p w) = resources w"
    by (simp add: signal_emit_destroy_def)
  have "buffer_consider_destroy p w = Inr w'"
    using assms w'(1) by (simp add: buffer_consider_destroy_def del: impl.simps)
  then show ?thesis
    using w' gs res by auto
qed

lemma release_live:
  assumes "bufs w p = Some b"
  shows "bufs (signal_emit_release p w) = (bufs w)(p \<mapsto> b\<lparr>derived := after_release (derived b)\<rparr>)"
    and "trace (signal_emit_release p w) = trace w @ EvRelease p # release_msgs b"
    and "textures (signal_emit_release p w) = textures w"
    and "resources (signal_emit_release p w) = resources w"
    and "mem (signal_emit_release p w) = mem w"
  using assms
  by (cases "derived b";
      auto simp add: signal_emit_release_def Let_def client_buffer_handle_release_def
        shm_client_buffer_handle_release_def after_release_def release_msgs_def
        split: option.splits)+

lemma release_events_append [simp]:
  "release_events p (xs @ ys) = release_events p xs @ release_events p ys"
  by (simp add: release_events_def)

lemma release_events_simps [simp]:
  "release_events p [] = []"
  "release_events p (EvRelease q # es) = (if q = p then [EvRelease p] else []) @ release_events p es"
  "release_events p (EvDestroy q # es) = release_events p es"
  "release_events p (EvFree q # es) = release_events p es"
  "release_events p (WlBufferSendRelease q # es) = release_events p es"
  "release_events p (WlrTextureDestroy q # es) = release_events p es"
  "release_events p (WlShmBufferBeginAccess # es) = release_events p es"
  "release_events p (WlShmBufferEndAccess # es) = release_events p es"
  "release_events p (WlShmBufferRefPool q # es) = release_events p es"
  "release_events p (WlShmPoolUnref q # es) = release_events p es"
  "release_events p (DmabufAttributesFinish # es) = release_events p es"
  "release_events p (Gpu g # es) = release_events p es"
  by (auto simp add: release_events_def)

lemma events_map_Gpu [simp]:
  "destroy_events p (map Gpu gs) = []" "release_events p (map Gpu gs) = []"
  by (induction gs) simp_all

lemma events_destroy_msgs [simp]:
  "destroy_events p (destroy_msgs b) = []" "release_events p (destroy_msgs b) = []"
  by (auto simp add: destroy_msgs_def split: backend.splits option.splits)

lemma events_release_msgs [simp]:
  "destroy_events p (release_msgs b) = []" "release_events p (release_msgs b) = []"
  by (auto simp add: release_msgs_def split: backend.splits option.splits)

lemma unlock_live:
  assumes "bufs w p = Some b" "0 < n_locks b"
  shows "1 < n_locks b \<Longrightarrow>
           wlr_buffer_unlock (Some p) w = Inr (set_buffer p (b\<lparr>n_locks := n_locks b - 1\<rparr>) w)"
    and "n_locks b = 1 \<Longrightarrow> \<not> dropped b \<Longrightarrow>
           \<exists>w'. wlr_buffer_unlock (Some p) w = Inr w'
              \<and> bufs w' = (bufs w)(p \<mapsto> b\<lparr>n_locks := 0, derived := after_release (derived b)\<rparr>)
              \<and> trace w' = trace w @ EvRelease p # release_msgs b
              \<and> resources w' = resources w"
    and "n_locks b = 1 \<Longrightarrow> dropped b \<Longrightarrow> accessing_data_ptr b \<Longrightarrow>
           wlr_buffer_unlock (Some p) w = Inl AssertionFailed"
    and "n_locks b = 1 \<Longrightarrow> dropped b \<Longrightarrow> \<not> accessing_data_ptr b \<Longrightarrow>
           \<exists>w' gs. wlr_buffer_unlock (Some p) w = Inr w'
              \<and> bufs w' = (bufs w)(p := None)
              \<and> trace w' = trace w @ EvRelease p # release_msgs b @ EvDestroy p # map Gpu gs
                   @ destroy_msgs (b\<lparr>n_locks := 0, derived := after_release (derived b)\<rparr>) @ [EvFree p]
              \<and> resources w' = resources w"
proof -
  let ?w1 = "set_buffer p (b\<lparr>n_locks := n_locks b - 1\<rparr>) w"
  have live1: "bufs ?w1 p = Some (b\<lparr>n_locks := n_locks b - 1\<rparr>)" by simp
  note rel = release_live [OF live1]
  show "1 < n_locks b \<Longrightarrow>
           wlr_buffer_unlock (Some p) w = Inr (set_buffer p (b\<lparr>n_locks := n_locks b - 1\<rparr>) w)"
    using assms consider_destroy_keep [OF live1]
    by (simp add: wlr_buffer_unlock_def Let_def)
  let ?b2 = "b\<lparr>n_locks := 0, derived := after_release (derived b)\<rparr>"
  let ?w2 = "signal_emit_release p ?w1"
  have msgs: "release_msgs (b\<lparr>n_locks := n_locks b - 1\<rparr>) = release_msgs b"
    by (simp add: release_msgs_def)
  {
    assume one: "n_locks b = 1"
    have live2: "bufs ?w2 p = Some ?b2"
      using rel(1) one by simp
    have unl: "wlr_buffer_unlock (Some p) w = buffer_consider_destroy p ?w2"
      using assms one by (simp add: wlr_buffer_unlock_def Let_def)
    have tr2: "trace ?w2 = trace w @ EvRelease p # release_msgs b"
      using rel(2) msgs by simp
    have bufs2: "bufs ?w2 = (bufs w)(p \<mapsto> ?b2)"
      using rel(1) one by simp
    have res2: "resources ?w2 = resources w"
      using rel(4) by simp
    note live2 unl tr2 bufs2 res2
  } note facts = this
  show "n_locks b = 1 \<Longrightarrow> \<not> dropped b \<Longrightarrow>
           \<exists>w'. wlr_buffer_unlock (Some p) w = Inr w'
              \<and> bufs w' = (bufs w)(p \<mapsto> ?b2)
              \<and> trace w' = trace w @ EvRelease p # release_msgs b
              \<and> resources w' = resources w"
    using facts consider_destroy_keep [of ?w2 p ?b2] by simp
  show "n_locks b = 1 \<Longrightarrow> dropped b \<Longrightarrow> accessing_data_ptr b \<Longrightarrow>
           wlr_buffer_unlock (Some p) w = Inl AssertionFailed"
    using facts consider_destroy_accessing [of ?w2 p ?b2] by simp
  show "n_locks b = 1 \<Longrightarrow> dropped b \<Longrightarrow> \<not> accessing_data_ptr b \<Longrightarrow>
           \<exists>w' gs. wlr_buffer_unlock (Some p) w = Inr w'
              \<and> bufs w' = (bufs w)(p := None)
              \<and> trace w' = trace w @ EvRelease p # release_msgs b @ EvDestroy p # map Gpu gs
                   @ destroy_msgs ?b2 @ [EvFree p]
              \<and> resources w' = resources w"
  proof -
    assume a: "n_locks b = 1" "dropped b" "\<not> accessing_data_ptr b"
    obtain w' gs where "buffer_consider_destroy p ?w2 = Inr w'" "bufs w' = (bufs ?w2)(p := None)"
      "trace w' = trace ?w2 @ EvDestroy p # map Gpu gs @ destroy_msgs ?b2 @ [EvFree p]"
      "resources w' = resources ?w2"
      using consider_destroy_fire [of ?w2 p ?b2] facts(1) [OF a(1)] a by auto
    then show ?thesis
      using facts [OF a(1)] by (intro exI [of _ w'] exI [of _ gs]) simp
  qed
qed

lemma drop_live:
  assumes "bufs w p = Some b" "\<not> dropped b"
  shows "0 < n_locks b \<Longrightarrow>
           wlr_buffer_drop (Some p) w = Inr (set_buffer p (b\<lparr>dropped := True\<rparr>) w)"
    and "n_locks b = 0 \<Longrightarrow> accessing_data_ptr b \<Longrightarrow>
           wlr_buffer_drop (Some p) w = Inl AssertionFailed"
    and "n_locks b = 0 \<Longrightarrow> \<not> accessing_data_ptr b \<Longrightarrow>
           \<exists>w' gs. wlr_buffer_drop (Some p) w = Inr w'
              \<and> bufs w' = (bufs w)(p := None)
              \<and> trace w' = trace w @ EvDestroy p # map Gpu gs
                   @ destroy_msgs (b\<lparr>dropped := True\<rparr>) @ [EvFree p]
              \<and> resources w' = resources w"
proof -
  let ?b1 = "b\<lparr>dropped := True\<rparr>"
  let ?w1 = "set_buffer p ?b1 w"
  have live1: "bufs ?w1 p = Some ?b1" by simp
  have drp: "wlr_buffer_drop (Some p) w = buffer_consider_destroy p ?w1"
    using assms by (simp add: wlr_buffer_drop_def)
  show "0 < n_locks b \<Longrightarrow> wlr_buffer_drop (Some p) w = Inr ?w1"
    using drp consider_destroy_keep [OF live1] by simp
  show "n_locks b = 0 \<Longrightarrow> accessing_data_ptr b \<Longrightarrow>
           wlr_buffer_drop (Some p) w = Inl AssertionFailed"
    using drp consider_destroy_accessing [OF live1] by simp
  show "n_locks b = 0 \<Longrightarrow> \<not> accessing_data_ptr b \<Longrightarrow>
           \<exists>w' gs. wlr_buffer_drop (Some p) w = Inr w'
              \<and> bufs w' = (bufs w)(p := None)
              \<and> trace w' = trace w @ EvDestroy p # map Gpu gs @ destroy_msgs ?b1 @ [EvFree p]
              \<and> resources w' = resources w"
    using drp consider_destroy_fire [OF live1] by simp
qed

lemma begin_live:
  assumes "bufs w p = Some b" "\<not> accessing_data_ptr b"
  shows "\<exists>acc w' es. buffer_begin_data_ptr_access p w = Inr (acc, w')
           \<and> bufs w' = (bufs w)(p \<mapsto> b\<lparr>accessing_data_ptr := (acc \<noteq> None)\<rparr>)
           \<and> trace w' = trace w @ es \<and> set es \<subseteq> {WlShmBufferBeginAccess}
           \<and> resources w' = resources w \<and> mem w' = mem w"
  using assms
  by (cases "derived b")
     (auto simp add: buffer_begin_data_ptr_access_def client_buffer_impl_def
        shm_client_buffer_impl_def readonly_data_buffer_impl_def dmabuf_buffer_impl_def
        shm_client_buffer_begin_data_ptr_access_def
        readonly_data_buffer_begin_data_ptr_access_def
        split: option.splits)

lemma begin_nested:
  "bufs w p = Some b \<Longrightarrow> accessing_data_ptr b \<Longrightarrow>
     buffer_begin_data_ptr_access p w = Inl AssertionFailed"
  by (simp add: buffer_begin_data_ptr_access_def)

lemma end_unmatched:
  "bufs w p = Some b \<Longrightarrow> \<not> accessing_data_ptr b \<Longrightarrow>
     buffer_end_data_ptr_access p w = Inl AssertionFailed"
  by (simp add: buffer_end_data_ptr_access_def)

lemma end_live:
  assumes "bufs w p = Some b" "accessing_data_ptr b" "buffer_end_data_ptr_access p w = Inr w'"
  shows "\<exists>es. bufs w' = (bufs w)(p \<mapsto> b\<lparr>accessing_data_ptr := False\<rparr>)
           \<and> trace w' = trace w @ es \<and> set es \<subseteq> {WlShmBufferEndAccess}
           \<and> resources w' = resources w \<and> mem w' = mem w"
  using assms
  by (cases "derived b")
     (auto simp add: buffer_end_data_ptr_access_def client_buffer_impl_def
        shm_client_buffer_impl_def readonly_data_buffer_impl_def dmabuf_buffer_impl_def
        shm_client_buffer_end_data_ptr_access_def
        readonly_data_buffer_end_data_ptr_access_def
        split: option.splits)

lemma resource_destroyed_live:
  assumes "bufs w p = Some b"
  shows "\<exists>d es. bufs (resource_destroyed p w) = (bufs w)(p \<mapsto> b\<lparr>derived := d\<rparr>)
           \<and> trace (resource_destroyed p w) = trace w @ es
           \<and> set es \<subseteq> range WlShmBufferRefPool"
proof -
  have keep: "resource_destroyed p w = w \<Longrightarrow> ?thesis"
  proof -
    assume same: "resource_destroyed p w = w"
    have "bufs w = (bufs w)(p \<mapsto> b\<lparr>derived := derived b\<rparr>)"
      using assms by (simp add: fun_upd_idem)
    then show ?thesis
      unfolding same by (intro exI [of _ "derived b"] exI [of _ "[]"]) simp
  qed
  show ?thesis
  proof (cases "derived b")
    case (ClientBuffer c)
    show ?thesis
    proof (cases "resource c")
      case None
      then show ?thesis
        using assms ClientBuffer keep by (simp add: resource_destroyed_def)
    next
      case (Some r)
      then show ?thesis
        using assms ClientBuffer
        by (intro exI [of _ "ClientBuffer (c\<lparr>resource := None\<rparr>)"] exI [of _ "[]"])
           (simp add: resource_destroyed_def client_buffer_resource_handle_destroy_def)
    qed
  next
    case (ShmClientBuffer s)
    show ?thesis
    proof (cases "shm_resource s")
      case None
      then show ?thesis
        using assms ShmClientBuffer keep by (simp add: resource_destroyed_def)
    next
      case (Some r)
      show ?thesis
      proof (cases "shm_buffer s")
        case None
        then show ?thesis
          using assms ShmClientBuffer Some
          by (intro exI [of _ "derived b"] exI [of _ "[]"])
             (simp add: resource_destroyed_def shm_client_buffer_resource_handle_destroy_def
                fun_upd_idem)
      next
        case (Some sb)
        then show ?thesis
          using assms ShmClientBuffer \<open>shm_resource s = Some r\<close>
          by (intro exI [of _ "ShmClientBuffer
                           (s\<lparr>saved_shm_pool := Some (sb_pool sb),
                              shm_saved_data := Some (sb_data sb),
                              shm_resource := None,
                              shm_buffer := None\<rparr>)"] exI [of _ "[WlShmBufferRefPool (sb_pool sb)]"])
             (simp add: resource_destroyed_def shm_client_buffer_resource_handle_destroy_def)
      qed
    qed
  next
    case (ReadonlyDataBuffer r)
    then show ?thesis
      using assms keep by (simp add: resource_destroyed_def)
  next
    case (DmabufBuffer d)
    then show ?thesis
      using assms keep by (simp add: resource_destroyed_def)
  qed
qed

lemma resource_destroyed_freed:
  "bufs w p = None \<Longrightarrow> resource_destroyed p w = w"
  by (simp add: resource_destroyed_def)

lemma quiet_events:
  assumes "set es \<subseteq> {WlShmBufferBeginAccess} \<union> {WlShmBufferEndAccess} \<union> range WlShmBufferRefPool"
  shows "destroy_events p es = []" "release_events p es = []"
  using assms by (auto simp add: destroy_events_def release_events_def filter_empty_conv)

lemma unlock_unlocked:
  "bufs w p = Some b \<Longrightarrow> n_locks b = 0 \<Longrightarrow> wlr_buffer_unlock (Some p) w = Inl AssertionFailed"
  by (simp add: wlr_buffer_unlock_def)

lemma drop_dropped:
  "bufs w p = Some b \<Longrightarrow> dropped b \<Longrightarrow> wlr_buffer_drop (Some p) w = Inl AssertionFailed"
  by (simp add: wlr_buffer_drop_def)

lemma returning_simps [simp]:
  "returning r (Inr w) = Inr (r, w)" "returning r (Inl e) = Inl e"
  by (simp_all add: returning_def)

lemma returning_Inr [simp]:
  "(returning r x = Inr (r', w')) = (x = Inr w' \<and> r' = r)"
  by (cases x) (auto simp add: returning_def)

section \<open>One step of a history\<close>

lemma effectI_live:
  assumes "trace w' = trace w @ es" "bufs w' p = Some b'" "fields b' = post x r (fields b)"
    and "\<not> dead (post x r (fields b))" "destroy_events p es = []"
    and "release_events p es = (if x = Unlock \<and> n_locks b = 1 then [EvRelease p] else [])"
  shows "effect p x r b w w'"
  unfolding effect_def using assms by (intro exI [of _ es]) simp

lemma effectI_dead:
  assumes "trace w' = trace w @ es" "bufs w' p = None"
    and "dead (post x r (fields b))" "destroy_events p es = [EvDestroy p, EvFree p]"
    and "release_events p es = (if x = Unlock \<and> n_locks b = 1 then [EvRelease p] else [])"
  shows "effect p x r b w w'"
  unfolding effect_def using assms by (intro exI [of _ es]) simp

lemma step_lock:
  assumes "bufs w p = Some b" "\<not> dead (fields b)" "step p Lock w = Inr (r, w')"
  shows "effect p Lock r b w w'"
  using assms
  by (intro effectI_live [where es = "[]" and b' = "b\<lparr>n_locks := Suc (n_locks b)\<rparr>"])
     (auto simp add: lock_live fields_def dead_def)

lemma step_unlock:
  assumes live: "bufs w p = Some b" and inv: "\<not> dead (fields b)"
    and st: "step p Unlock w = Inr (r, w')"
  shows "enabled Unlock (fields b) \<and> effect p Unlock r b w w'"
proof -
  have unl: "wlr_buffer_unlock (Some p) w = Inr w'"
    using st by simp
  have pos: "0 < n_locks b"
    using unl unlock_unlocked [OF live] by (cases "n_locks b = 0") auto
  note u = unlock_live [OF live pos]
  consider (many) "1 < n_locks b" | (last_keep) "n_locks b = 1" "\<not> dropped b"
    | (last_acc) "n_locks b = 1" "dropped b" "accessing_data_ptr b"
    | (last_fire) "n_locks b = 1" "dropped b" "\<not> accessing_data_ptr b"
    using pos by linarith
  then show ?thesis
  proof cases
    case many
    then have "w' = set_buffer p (b\<lparr>n_locks := n_locks b - 1\<rparr>) w"
      using u(1) unl by simp
    then have "effect p Unlock r b w w'"
      using many
      by (intro effectI_live [where es = "[]" and b' = "b\<lparr>n_locks := n_locks b - 1\<rparr>"])
         (auto simp add: fields_def dead_def)
    then show ?thesis using many by (simp add: fields_def)
  next
    case last_keep
    then obtain b' where "bufs w' p = Some b'" "fields b' = (dropped b, 0, accessing_data_ptr b)"
      "trace w' = trace w @ EvRelease p # release_msgs b"
      using u(2) unl by (auto simp add: fields_def)
    then have "effect p Unlock r b w w'"
      using last_keep
      by (intro effectI_live [where es = "EvRelease p # release_msgs b" and b' = b'])
         (auto simp add: fields_def dead_def)
    then show ?thesis using last_keep by (simp add: fields_def)
  next
    case last_acc
    then show ?thesis using u(3) unl by simp
  next
    case last_fire
    then obtain gs where "bufs w' p = None"
      "trace w' = trace w @ EvRelease p # release_msgs b @ EvDestroy p # map Gpu gs
         @ destroy_msgs (b\<lparr>n_locks := 0, derived := after_release (derived b)\<rparr>) @ [EvFree p]"
      using u(4) unl by auto
    then have "effect p Unlock r b w w'"
      using last_fire
      by (intro effectI_dead [where es = "EvRelease p # release_msgs b @ EvDestroy p # map Gpu gs
         @ destroy_msgs (b\<lparr>n_locks := 0, derived := after_release (derived b)\<rparr>) @ [EvFree p]"])
         (auto simp add: fields_def dead_def)
    then show ?thesis using last_fire by (simp add: fields_def)
  qed
qed

lemma step_drop:
  assumes live: "bufs w p = Some b" and inv: "\<not> dead (fields b)"
    and st: "step p Drop w = Inr (r, w')"
  shows "enabled Drop (fields b) \<and> effect p Drop r b w w'"
proof -
  have drp: "wlr_buffer_drop (Some p) w = Inr w'"
    using st by simp
  have nd: "\<not> dropped b"
    using drp drop_dropped [OF live] by (cases "dropped b") auto
  note d = drop_live [OF live nd]
  consider (locked) "0 < n_locks b" | (acc) "n_locks b = 0" "accessing_data_ptr b"
    | (fire) "n_locks b = 0" "\<not> accessing_data_ptr b"
    by auto
  then show ?thesis
  proof cases
    case locked
    then have "w' = set_buffer p (b\<lparr>dropped := True\<rparr>) w"
      using d(1) drp by simp
    then have "effect p Drop r b w w'"
      using locked
      by (intro effectI_live [where es = "[]" and b' = "b\<lparr>dropped := True\<rparr>"])
         (auto simp add: fields_def dead_def)
    then show ?thesis using locked nd by (simp add: fields_def)
  next
    case acc
    then show ?thesis using d(2) drp by simp
  next
    case fire
    then obtain gs where "bufs w' p = None"
      "trace w' = trace w @ EvDestroy p # map Gpu gs @ destroy_msgs (b\<lparr>dropped := True\<rparr>) @ [EvFree p]"
      using d(3) drp by auto
    then have "effect p Drop r b w w'"
      using fire
      by (intro effectI_dead [where es = "EvDestroy p # map Gpu gs
            @ destroy_msgs (b\<lparr>dropped := True\<rparr>) @ [EvFree p]"])
         (auto simp add: fields_def dead_def)
    then show ?thesis using fire nd by (simp add: fields_def)
  qed
qed

lemma step_begin:
  assumes live: "bufs w p = Some b" and inv: "\<not> dead (fields b)"
    and st: "step p BeginAccess w = Inr (r, w')"
  shows "enabled BeginAccess (fields b) \<and> effect p BeginAccess r b w w'"
proof -
  have na: "\<not> accessing_data_ptr b"
    using st begin_nested [OF live] by (cases "accessing_data_ptr b") auto
  obtain acc w1 es where b: "buffer_begin_data_ptr_access p w = Inr (acc, w1)"
      "bufs w1 = (bufs w)(p \<mapsto> b\<lparr>accessing_data_ptr := (acc \<noteq> None)\<rparr>)"
      "trace w1 = trace w @ es" "set es \<subseteq> {WlShmBufferBeginAccess}"
    using begin_live [OF live na] by blast
  have eq: "w' = w1" "r = (acc \<noteq> None)"
    using st b(1) by auto
  have q: "destroy_events p es = []" "release_events p es = []"
    using quiet_events [of es p] b(4) by auto
  have "effect p BeginAccess r b w w'"
    using eq b inv q
    by (intro effectI_live [where es = es and b' = "b\<lparr>accessing_data_ptr := (acc \<noteq> None)\<rparr>"])
       (auto simp add: fields_def dead_def)
  then show ?thesis using na by (simp add: fields_def)
qed

lemma step_end:
  assumes live: "bufs w p = Some b" and inv: "\<not> dead (fields b)"
    and st: "step p EndAccess w = Inr (r, w')"
  shows "enabled EndAccess (fields b) \<and> effect p EndAccess r b w w'"
proof -
  have e: "buffer_end_data_ptr_access p w = Inr w'"
    using st by simp
  have a: "accessing_data_ptr b"
    using e end_unmatched [OF live] by (cases "accessing_data_ptr b") auto
  obtain es where b: "bufs w' = (bufs w)(p \<mapsto> b\<lparr>accessing_data_ptr := False\<rparr>)"
      "trace w' = trace w @ es" "set es \<subseteq> {WlShmBufferEndAccess}"
    using end_live [OF live a e] by blast
  have q: "destroy_events p es = []" "release_events p es = []"
    using quiet_events [of es p] b(3) by auto
  have "effect p EndAccess r b w w'"
    using b inv q
    by (intro effectI_live [where es = es and b' = "b\<lparr>accessing_data_ptr := False\<rparr>"])
       (auto simp add: fields_def dead_def)
  then show ?thesis using a by (simp add: fields_def)
qed

lemma step_resource_destroy:
  assumes live: "bufs w p = Some b" and inv: "\<not> dead (fields b)"
    and st: "step p ResourceDestroy w = Inr (r, w')"
  shows "effect p ResourceDestroy r b w w'"
proof -
  have eq: "w' = resource_destroyed p w"
    using st by simp
  obtain d es where b: "bufs w' = (bufs w)(p \<mapsto> b\<lparr>derived := d\<rparr>)"
      "trace w' = trace w @ es" "set es \<subseteq> range WlShmBufferRefPool"
    using resource_destroyed_live [OF live] eq by blast
  have q: "destroy_events p es = []" "release_events p es = []"
    using quiet_events [of es p] b(3) by auto
  show ?thesis
    using b inv q
    by (intro effectI_live [where es = es and b' = "b\<lparr>derived := d\<rparr>"])
       (auto simp add: fields_def dead_def)
qed

lemma enabled_always [simp]: "enabled Lock f" "enabled ResourceDestroy f"
  by (cases f; simp)+

lemma step_effect:
  assumes "bufs w p = Some b" "\<not> dead (fields b)" "step p x w = Inr (r, w')"
  shows "enabled x (fields b) \<and> effect p x r b w w'"
proof (cases x)
  case Lock
  then show ?thesis using step_lock [of w p b r w'] assms by simp
next
  case Unlock
  then show ?thesis using step_unlock assms by blast
next
  case Drop
  then show ?thesis using step_drop assms by blast
next
  case BeginAccess
  then show ?thesis using step_begin assms by blast
next
  case EndAccess
  then show ?thesis using step_end assms by blast
next
  case ResourceDestroy
  then show ?thesis using step_resource_destroy [of w p b r w'] assms by simp
qed

lemma step_freed:
  assumes "bufs w p = None" "step p x w = Inr (r, w')"
  shows "x = ResourceDestroy \<and> w' = w"
  using assms
  by (cases x)
     (auto simp add: wlr_buffer_lock_def wlr_buffer_unlock_def wlr_buffer_drop_def
        buffer_begin_data_ptr_access_def buffer_end_data_ptr_access_def
        resource_destroyed_freed)

section \<open>Histories\<close>

lemma run_append:
  "(run p (xs @ ys) w = Inr (rs, w')) =
     (\<exists>rs1 w1 rs2. run p xs w = Inr (rs1, w1) \<and> run p ys w1 = Inr (rs2, w') \<and> rs = rs1 @ rs2)"
proof (induction xs arbitrary: w rs)
  case Nil
  show ?case by simp
next
  case (Cons x xs)
  show ?case
  proof (cases "step p x w")
    case (Inl e)
    then show ?thesis by simp
  next
    case (Inr a)
    obtain r w1 where a: "a = (r, w1)" by (cases a)
    show ?thesis
    proof
      assume run: "run p ((x # xs) @ ys) w = Inr (rs, w')"
      then obtain rs' where tl: "run p (xs @ ys) w1 = Inr (rs', w')" and rs: "rs = r # rs'"
        using Inr a by (auto split: sum.splits)
      then obtain rs1 w2 rs2 where "run p xs w1 = Inr (rs1, w2)" "run p ys w2 = Inr (rs2, w')"
          "rs' = rs1 @ rs2"
        using Cons.IH by blast
      then show "\<exists>rs1 w1 rs2. run p (x # xs) w = Inr (rs1, w1) \<and> run p ys w1 = Inr (rs2, w')
                   \<and> rs = rs1 @ rs2"
        using Inr a rs by (intro exI [of _ "r # rs1"] exI [of _ w2] exI [of _ rs2]) simp
    next
      assume "\<exists>rs1 w1 rs2. run p (x # xs) w = Inr (rs1, w1) \<and> run p ys w1 = Inr (rs2, w')
                \<and> rs = rs1 @ rs2"
      then obtain rs1 w2 rs2 where h: "run p (x # xs) w = Inr (rs1, w2)"
          "run p ys w2 = Inr (rs2, w')" "rs = rs1 @ rs2"
        by blast
      then obtain rs1' where h1: "run p xs w1 = Inr (rs1', w2)" "rs1 = r # rs1'"
        using Inr a by (auto split: sum.splits)
      then have "run p (xs @ ys) w1 = Inr (rs1' @ rs2, w')"
        using Cons.IH h(2) by blast
      then show "run p ((x # xs) @ ys) w = Inr (rs, w')"
        using Inr a h(3) h1(2) by simp
    qed
  qed
qed

lemma run_single: "(run p [x] w = Inr (rs, w')) = (\<exists>r. step p x w = Inr (r, w') \<and> rs = [r])"
  by (auto split: sum.splits)

lemma run_snoc:
  "(run p (xs @ [x]) w = Inr (rs, w')) =
     (\<exists>rs1 w1 r. run p xs w = Inr (rs1, w1) \<and> step p x w1 = Inr (r, w') \<and> rs = rs1 @ [r])"
  unfolding run_append run_single by blast

lemma run_take:
  assumes "run p ops w = Inr (rs, w')"
  shows "\<exists>rs1 w1. run p (take k ops) w = Inr (rs1, w1)"
proof -
  have "run p (take k ops @ drop k ops) w = Inr (rs, w')"
    using assms by simp
  then show ?thesis
    unfolding run_append by blast
qed

lemma run_length: "run p ops w = Inr (rs, w') \<Longrightarrow> length rs = length ops"
  by (induction ops arbitrary: w rs) (auto split: sum.splits)

lemma tracked_step:
  assumes tr: "tracked p t0 ops w" and st: "step p x w = Inr (r, w')"
  shows "tracked p t0 (ops @ [x]) w'"
proof (cases "bufs w p")
  case None
  then have "x = ResourceDestroy" "w' = w"
    using step_freed [OF None st] by auto
  then show ?thesis
    using tr None by (auto simp add: tracked_def)
next
  case (Some b)
  obtain es where es: "trace w = t0 @ es" "destroy_events p es = []"
      "dropped b = (Drop \<in> set ops)" "n_locks b + count_list ops Unlock = count_list ops Lock"
      "\<not> dead (fields b)"
    using tr Some by (auto simp add: tracked_def)
  have en: "enabled x (fields b)" and ef: "effect p x r b w w'"
    using step_effect [OF Some es(5) st] by auto
  obtain es' where es': "trace w' = trace w @ es'"
      "if dead (post x r (fields b))
       then bufs w' p = None \<and> destroy_events p es' = [EvDestroy p, EvFree p]
       else (\<exists>b'. bufs w' p = Some b' \<and> fields b' = post x r (fields b))
              \<and> destroy_events p es' = []"
    using ef unfolding effect_def by blast
  show ?thesis
  proof (cases "dead (post x r (fields b))")
    case True
    then have "bufs w' p = None" "destroy_events p (es @ es') = [EvDestroy p, EvFree p]"
      using es' es(2) by auto
    moreover have "Drop \<in> set (ops @ [x]) \<and>
        count_list (ops @ [x]) Lock = count_list (ops @ [x]) Unlock"
      using True en es(3,4) by (cases x) (auto simp add: fields_def dead_def)
    ultimately show ?thesis
      unfolding tracked_def using es(1) es'(1) by (intro exI [of _ "es @ es'"]) simp
  next
    case False
    then obtain b' where b': "bufs w' p = Some b'" "fields b' = post x r (fields b)"
        "destroy_events p (es @ es') = []"
      using es' es(2) by auto
    have "dropped b' = (Drop \<in> set (ops @ [x])) \<and>
        n_locks b' + count_list (ops @ [x]) Unlock = count_list (ops @ [x]) Lock"
      using b'(2) en es(3,4) by (cases x) (auto simp add: fields_def)
    then show ?thesis
      unfolding tracked_def using es(1) es'(1) b' False
      by (intro exI [of _ "es @ es'"]) simp
  qed
qed

lemma run_tracked:
  assumes "tracked p t0 pre w0" "run p ops w0 = Inr (rs, w)"
  shows "tracked p t0 (pre @ ops) w"
  using assms
proof (induction ops arbitrary: rs w rule: rev_induct)
  case Nil
  then show ?case by simp
next
  case (snoc x xs)
  obtain rs1 w1 r where "run p xs w0 = Inr (rs1, w1)" "step p x w1 = Inr (r, w)"
    using snoc.prems(2) unfolding run_snoc by blast
  then show ?case
    using snoc.IH [OF snoc.prems(1)] tracked_step [of p t0 "pre @ xs" w1 x r w] by simp
qed

lemma fresh_tracked:
  assumes "bufs w0 p = Some b0" "n_locks b0 = 0" "\<not> dropped b0"
  shows "tracked p (trace w0) [] w0"
  using assms by (simp add: tracked_def fields_def dead_def)

section \<open>Destruction happens exactly once\<close>

lemma run_locks:
  assumes "bufs w p = Some b"
  shows "\<exists>w'. run p (replicate k Lock) w = Inr (replicate k True, w')
           \<and> bufs w' = (bufs w)(p \<mapsto> b\<lparr>n_locks := n_locks b + k\<rparr>) \<and> trace w' = trace w"
  using assms
proof (induction k arbitrary: w b)
  case 0
  then show ?case by (simp add: fun_upd_idem)
next
  case (Suc k)
  let ?b1 = "b\<lparr>n_locks := Suc (n_locks b)\<rparr>"
  let ?w1 = "set_buffer p ?b1 w"
  have st: "step p Lock w = Inr (True, ?w1)"
    using Suc.prems by (simp add: lock_live)
  have live1: "bufs ?w1 p = Some ?b1" by simp
  obtain w' where "run p (replicate k Lock) ?w1 = Inr (replicate k True, w')"
      "bufs w' = (bufs ?w1)(p \<mapsto> ?b1\<lparr>n_locks := n_locks ?b1 + k\<rparr>)" "trace w' = trace ?w1"
    using Suc.IH [OF live1] by blast
  then show ?case
    using st by (intro exI [of _ w']) simp
qed

lemma run_unlocks_keep:
  assumes "bufs w p = Some b" "k < n_locks b"
  shows "\<exists>w'. run p (replicate k Unlock) w = Inr (replicate k True, w')
           \<and> bufs w' = (bufs w)(p \<mapsto> b\<lparr>n_locks := n_locks b - k\<rparr>) \<and> trace w' = trace w"
  using assms
proof (induction k arbitrary: w b)
  case 0
  then show ?case by (simp add: fun_upd_idem)
next
  case (Suc k)
  let ?b1 = "b\<lparr>n_locks := n_locks b - 1\<rparr>"
  let ?w1 = "set_buffer p ?b1 w"
  have "wlr_buffer_unlock (Some p) w = Inr ?w1"
    using unlock_live(1) [OF Suc.prems(1)] Suc.prems(2) by simp
  then have st: "step p Unlock w = Inr (True, ?w1)"
    by simp
  have live1: "bufs ?w1 p = Some ?b1" by simp
  have "k < n_locks ?b1"
    using Suc.prems(2) by simp
  from Suc.IH [OF live1 this]
  obtain w' where "run p (replicate k Unlock) ?w1 = Inr (replicate k True, w')"
      "bufs w' = (bufs ?w1)(p \<mapsto> ?b1\<lparr>n_locks := n_locks ?b1 - k\<rparr>)" "trace w' = trace ?w1"
    by blast
  then show ?case
    using st by (intro exI [of _ w']) simp
qed

lemma drop_while_locked_then_unlock:
  assumes "bufs w0 p = Some b0" "n_locks b0 = 0" "\<not> dropped b0" "\<not> accessing_data_ptr b0"
    and "0 < n"
  shows "\<exists>rs w. run p (replicate n Lock @ Drop # replicate n Unlock) w0 = Inr (rs, w)
           \<and> bufs w p = None"
proof -
  obtain m where n: "n = Suc m"
    using assms(5) by (cases n) auto
  let ?b1 = "b0\<lparr>n_locks := n\<rparr>"
  obtain w1 where w1: "run p (replicate n Lock) w0 = Inr (replicate n True, w1)"
      "bufs w1 = (bufs w0)(p \<mapsto> b0\<lparr>n_locks := n_locks b0 + n\<rparr>)"
    using run_locks [OF assms(1), of n] by blast
  have live1: "bufs w1 p = Some ?b1"
    using w1(2) assms(2) by simp
  let ?b2 = "?b1\<lparr>dropped := True\<rparr>"
  let ?w2 = "set_buffer p ?b2 w1"
  have "wlr_buffer_drop (Some p) w1 = Inr ?w2"
    using drop_live(1) [OF live1] assms(3,5) by simp
  then have st2: "step p Drop w1 = Inr (True, ?w2)"
    by simp
  let ?b3 = "?b2\<lparr>n_locks := 1\<rparr>"
  have live2: "bufs ?w2 p = Some ?b2" by simp
  have "m < n_locks ?b2"
    using n by simp
  from run_unlocks_keep [OF live2 this]
  obtain w3 where w3: "run p (replicate m Unlock) ?w2 = Inr (replicate m True, w3)"
      "bufs w3 = (bufs ?w2)(p \<mapsto> ?b2\<lparr>n_locks := n_locks ?b2 - m\<rparr>)"
    by blast
  have live3: "bufs w3 p = Some ?b3"
    using w3(2) n by simp
  have "0 < n_locks ?b3" "n_locks ?b3 = 1" "dropped ?b3" "\<not> accessing_data_ptr ?b3"
    using assms(4) by simp_all
  from unlock_live(4) [OF live3 this]
  obtain w4 where w4: "wlr_buffer_unlock (Some p) w3 = Inr w4" "bufs w4 = (bufs w3)(p := None)"
    by blast
  then have st4: "step p Unlock w3 = Inr (True, w4)"
    by simp
  have "run p (replicate m Unlock @ [Unlock]) ?w2 = Inr (replicate m True @ [True], w4)"
    unfolding run_snoc using w3(1) st4 by blast
  then have "run p (replicate n Unlock) ?w2 = Inr (replicate n True, w4)"
    unfolding n by (simp only: replicate_Suc [symmetric] replicate_append_same)
  then have "run p (Drop # replicate n Unlock) w1 = Inr (True # replicate n True, w4)"
    using st2 by simp
  then have "run p (replicate n Lock @ Drop # replicate n Unlock) w0
               = Inr (replicate n True @ True # replicate n True, w4)"
    unfolding run_append using w1(1) by blast
  then show ?thesis
    using w4(2) by auto
qed

lemma consider_destroy_only_when:
  assumes "bufs w1 p = Some b1" "buffer_consider_destroy p w1 = Inr w2"
  shows "if dropped b1 \<and> n_locks b1 = 0
         then \<not> accessing_data_ptr b1 \<and> bufs w2 p = None
                \<and> (\<exists>es. trace w2 = trace w1 @ es \<and> destroy_events p es = [EvDestroy p, EvFree p])
         else w2 = w1"
proof (cases "dropped b1 \<and> n_locks b1 = 0")
  case False
  then show ?thesis
    using assms consider_destroy_keep [OF assms(1)] by auto
next
  case True
  then have na: "\<not> accessing_data_ptr b1"
    using assms consider_destroy_accessing [OF assms(1)] by (cases "accessing_data_ptr b1") auto
  have "dropped b1" "n_locks b1 = 0"
    using True by auto
  from consider_destroy_fire [OF assms(1) this na]
  obtain w' gs where "buffer_consider_destroy p w1 = Inr w'" "bufs w' = (bufs w1)(p := None)"
      "trace w' = trace w1 @ EvDestroy p # map Gpu gs @ destroy_msgs b1 @ [EvFree p]"
    by blast
  then have "bufs w2 p = None"
      "trace w2 = trace w1 @ (EvDestroy p # map Gpu gs @ destroy_msgs b1 @ [EvFree p])"
      "destroy_events p (EvDestroy p # map Gpu gs @ destroy_msgs b1 @ [EvFree p])
         = [EvDestroy p, EvFree p]"
    using assms(2) by auto
  then have "\<not> accessing_data_ptr b1 \<and> bufs w2 p = None
                \<and> (\<exists>es. trace w2 = trace w1 @ es \<and> destroy_events p es = [EvDestroy p, EvFree p])"
    using na by blast
  then show ?thesis
    using True by simp
qed

text \<open>
  Claim C1. Take a buffer that has just been initialised (no lock, not dropped, no data
  access in progress) and any history of calls on it that the code runs without a failed
  assertion. After every prefix of the history, the buffer has been freed if and only if
  the prefix contains a drop and as many unlocks as locks; the destroy signal has then been
  emitted exactly once, followed by the backend's free, and has not been emitted at all
  otherwise; while the buffer is alive, its \<open>dropped\<close> flag and lock count are those of the
  prefix. Dropping the buffer under \<open>n\<close> locks and unlocking \<open>n\<close> times runs without
  failure and ends with the buffer freed. A destroy attempt that returns has destroyed the
  buffer only in a state where \<open>dropped\<close> holds and \<open>n_locks\<close> is 0, and has changed
  nothing otherwise.
\<close>

theorem destroy_fires_exactly_once:
  assumes "bufs w0 p = Some b0" and "n_locks b0 = 0" and "\<not> dropped b0"
    and "\<not> accessing_data_ptr b0"
  shows "(run p ops w0 = Inr (rs, w) \<longrightarrow>
            (\<forall>k\<le>length ops. \<exists>rs' w' es.
               run p (take k ops) w0 = Inr (rs', w') \<and> trace w' = trace w0 @ es
               \<and> (bufs w' p = None) =
                   (Drop \<in> set (take k ops)
                    \<and> count_list (take k ops) Lock = count_list (take k ops) Unlock)
               \<and> destroy_events p es = (if bufs w' p = None then [EvDestroy p, EvFree p] else [])
               \<and> (\<forall>b. bufs w' p = Some b \<longrightarrow>
                     dropped b = (Drop \<in> set (take k ops))
                     \<and> n_locks b + count_list (take k ops) Unlock = count_list (take k ops) Lock)))
       \<and> (0 < n \<longrightarrow>
            (\<exists>rs w. run p (replicate n Lock @ Drop # replicate n Unlock) w0 = Inr (rs, w)
               \<and> bufs w p = None))
       \<and> (\<forall>w1 b1 w2. bufs w1 p = Some b1 \<and> buffer_consider_destroy p w1 = Inr w2 \<longrightarrow>
            (if dropped b1 \<and> n_locks b1 = 0
             then \<not> accessing_data_ptr b1 \<and> bufs w2 p = None
                    \<and> (\<exists>es. trace w2 = trace w1 @ es
                          \<and> destroy_events p es = [EvDestroy p, EvFree p])
             else w2 = w1))"
proof (intro conjI impI allI)
  fix k
  assume run: "run p ops w0 = Inr (rs, w)" and "k \<le> length ops"
  obtain rs' w' where pre: "run p (take k ops) w0 = Inr (rs', w')"
    using run_take [OF run] by blast
  have "tracked p (trace w0) (take k ops) w'"
    using run_tracked [OF fresh_tracked [OF assms(1-3)] pre] by simp
  then obtain es where es: "trace w' = trace w0 @ es"
      "case bufs w' p of
         None \<Rightarrow> destroy_events p es = [EvDestroy p, EvFree p] \<and> Drop \<in> set (take k ops)
                  \<and> count_list (take k ops) Lock = count_list (take k ops) Unlock
       | Some b \<Rightarrow> destroy_events p es = [] \<and> dropped b = (Drop \<in> set (take k ops))
                  \<and> n_locks b + count_list (take k ops) Unlock = count_list (take k ops) Lock
                  \<and> \<not> dead (fields b)"
    unfolding tracked_def by blast
  show "\<exists>rs' w' es.
          run p (take k ops) w0 = Inr (rs', w') \<and> trace w' = trace w0 @ es
          \<and> (bufs w' p = None) =
              (Drop \<in> set (take k ops)
               \<and> count_list (take k ops) Lock = count_list (take k ops) Unlock)
          \<and> destroy_events p es = (if bufs w' p = None then [EvDestroy p, EvFree p] else [])
          \<and> (\<forall>b. bufs w' p = Some b \<longrightarrow>
                dropped b = (Drop \<in> set (take k ops))
                \<and> n_locks b + count_list (take k ops) Unlock = count_list (take k ops) Lock)"
  proof (intro exI [of _ rs'] exI [of _ w'] exI [of _ es] conjI)
    show "(bufs w' p = None) =
              (Drop \<in> set (take k ops)
               \<and> count_list (take k ops) Lock = count_list (take k ops) Unlock)"
      using es(2) by (cases "bufs w' p") (auto simp add: dead_def fields_def)
  qed (use pre es in \<open>auto split: option.splits\<close>)
next
  assume "0 < n"
  then show "\<exists>rs w. run p (replicate n Lock @ Drop # replicate n Unlock) w0 = Inr (rs, w)
               \<and> bufs w p = None"
    using drop_while_locked_then_unlock [OF assms] by blast
next
  fix w1 b1 w2
  assume "bufs w1 p = Some b1 \<and> buffer_consider_destroy p w1 = Inr w2"
  then show "if dropped b1 \<and> n_locks b1 = 0
             then \<not> accessing_data_ptr b1 \<and> bufs w2 p = None
                    \<and> (\<exists>es. trace w2 = trace w1 @ es
                          \<and> destroy_events p es = [EvDestroy p, EvFree p])
             else w2 = w1"
    using consider_destroy_only_when by blast
qed

theorem destroy_fires_exactly_once_witness:
  "\<exists>rs w. run 0 [Lock, Drop, Unlock] example_world = Inr (rs, w) \<and> bufs w 0 = None
     \<and> destroy_events 0 (trace w) = [EvDestroy 0, EvFree 0]"
proof -
  have h: "bufs example_world 0 = Some example_buffer" "n_locks example_buffer = 0"
      "\<not> dropped example_buffer" "\<not> accessing_data_ptr example_buffer"
    by (simp_all add: example_world_def example_buffer_def)
  note inst = destroy_fires_exactly_once [OF h, where n = 1 and ops = "[Lock, Drop, Unlock]"]
  have e: "replicate (1::nat) Lock @ Drop # replicate 1 Unlock = [Lock, Drop, Unlock]"
    by simp
  have "\<exists>rs w. run 0 (replicate 1 Lock @ Drop # replicate 1 Unlock) example_world = Inr (rs, w)
          \<and> bufs w 0 = None"
    using inst [THEN conjunct2, THEN conjunct1, THEN mp, OF zero_less_one] .
  then obtain rs w where r: "run 0 [Lock, Drop, Unlock] example_world = Inr (rs, w)"
    unfolding e by blast
  have k: "3 \<le> length [Lock, Drop, Unlock]" by simp
  have "\<exists>rs' w' es. run 0 (take 3 [Lock, Drop, Unlock]) example_world = Inr (rs', w')
          \<and> trace w' = trace example_world @ es
          \<and> (bufs w' 0 = None) =
              (Drop \<in> set (take 3 [Lock, Drop, Unlock])
               \<and> count_list (take 3 [Lock, Drop, Unlock]) Lock
                   = count_list (take 3 [Lock, Drop, Unlock]) Unlock)
          \<and> destroy_events 0 es = (if bufs w' 0 = None then [EvDestroy 0, EvFree 0] else [])
          \<and> (\<forall>b. bufs w' 0 = Some b \<longrightarrow>
                dropped b = (Drop \<in> set (take 3 [Lock, Drop, Unlock]))
                \<and> n_locks b + count_list (take 3 [Lock, Drop, Unlock]) Unlock
                    = count_list (take 3 [Lock, Drop, Unlock]) Lock)"
    using inst [of rs w, THEN conjunct1, THEN mp, OF r, THEN spec, of 3, THEN mp, OF k] .
  then obtain rs' w' es where "run 0 [Lock, Drop, Unlock] example_world = Inr (rs', w')"
      "trace w' = trace example_world @ es" "bufs w' 0 = None"
      "destroy_events 0 es = (if bufs w' 0 = None then [EvDestroy 0, EvFree 0] else [])"
    by (auto simp del: run.simps)
  then show ?thesis
    by (intro exI [of _ rs'] exI [of _ w']) (simp add: example_world_def del: run.simps)
qed

section \<open>Null handles\<close>

text \<open>
  Claim C10. \<open>wlr_buffer_drop\<close> and \<open>wlr_buffer_unlock\<close> on a null buffer handle return at
  once: the world (every object, and the trace of signals and messages) is unchanged and
  no assertion fails.
\<close>

theorem null_handle_is_noop:
  "wlr_buffer_drop None w = Inr w \<and> wlr_buffer_unlock None w = Inr w"
  by (simp add: wlr_buffer_drop_def wlr_buffer_unlock_def)

section \<open>Locks, unlocks and the release signal\<close>

lemma held_run:
  assumes "bufs w p = Some b" "\<not> dropped b" "held (n_locks b) ops"
  shows "\<exists>rs w' b' es. run p ops w = Inr (rs, w') \<and> bufs w' p = Some b' \<and> n_locks b' = 0
           \<and> trace w' = trace w @ es \<and> release_events p es = [EvRelease p]"
  using assms
proof (induction ops arbitrary: w b)
  case Nil
  then show ?case by simp
next
  case (Cons x xs)
  show ?case
  proof (cases x)
    case Lock
    let ?b1 = "b\<lparr>n_locks := Suc (n_locks b)\<rparr>"
    let ?w1 = "set_buffer p ?b1 w"
    have st: "step p x w = Inr (True, ?w1)"
      using Lock Cons.prems(1) by (simp add: lock_live)
    have "bufs ?w1 p = Some ?b1" "\<not> dropped ?b1" "held (n_locks ?b1) xs"
      using Cons.prems Lock by simp_all
    from Cons.IH [OF this]
    obtain rs w' b' es where "run p xs ?w1 = Inr (rs, w')" "bufs w' p = Some b'" "n_locks b' = 0"
        "trace w' = trace ?w1 @ es" "release_events p es = [EvRelease p]"
      by blast
    then show ?thesis
      using st by (intro exI [of _ "True # rs"] exI [of _ w'] exI [of _ b'] exI [of _ es]) simp
  next
    case Unlock
    show ?thesis
    proof (cases "n_locks b = 1")
      case True
      then have xs: "xs = []"
        using Cons.prems(3) Unlock by simp
      have "0 < n_locks b" using True by simp
      from unlock_live(2) [OF Cons.prems(1) this True Cons.prems(2)]
      obtain w' where w': "wlr_buffer_unlock (Some p) w = Inr w'"
          "bufs w' = (bufs w)(p \<mapsto> b\<lparr>n_locks := 0, derived := after_release (derived b)\<rparr>)"
          "trace w' = trace w @ EvRelease p # release_msgs b"
        by blast
      show ?thesis
        using w' xs Unlock
        by (intro exI [of _ "[True]"] exI [of _ w']
              exI [of _ "b\<lparr>n_locks := 0, derived := after_release (derived b)\<rparr>"]
              exI [of _ "EvRelease p # release_msgs b"]) simp
    next
      case False
      then have many: "1 < n_locks b" and h: "held (n_locks b - 1) xs"
        using Cons.prems(3) Unlock by (simp_all split: if_splits)
      let ?b1 = "b\<lparr>n_locks := n_locks b - 1\<rparr>"
      let ?w1 = "set_buffer p ?b1 w"
      have "0 < n_locks b" using many by simp
      from unlock_live(1) [OF Cons.prems(1) this many]
      have st: "step p x w = Inr (True, ?w1)"
        using Unlock by simp
      have "bufs ?w1 p = Some ?b1" "\<not> dropped ?b1" "held (n_locks ?b1) xs"
        using Cons.prems h by simp_all
      from Cons.IH [OF this]
      obtain rs w' b' es where "run p xs ?w1 = Inr (rs, w')" "bufs w' p = Some b'" "n_locks b' = 0"
          "trace w' = trace ?w1 @ es" "release_events p es = [EvRelease p]"
        by blast
      then show ?thesis
        using st by (intro exI [of _ "True # rs"] exI [of _ w'] exI [of _ b'] exI [of _ es]) simp
    qed
  qed (use Cons.prems(3) in simp_all)
qed

lemma held_prefix:
  assumes "bufs w p = Some b" "\<not> dropped b" "held (n_locks b) ops" "k < length ops"
  shows "\<exists>rs w' b' es. run p (take k ops) w = Inr (rs, w') \<and> bufs w' p = Some b'
           \<and> (0 < n_locks b \<or> 0 < k \<longrightarrow> 0 < n_locks b')
           \<and> trace w' = trace w @ es \<and> release_events p es = []"
  using assms
proof (induction ops arbitrary: w b k)
  case Nil
  then show ?case by simp
next
  case (Cons x xs)
  show ?case
  proof (cases k)
    case 0
    then show ?thesis
      using Cons.prems(1) by (intro exI [of _ "[]"] exI [of _ w] exI [of _ b] exI [of _ "[]"]) simp
  next
    case (Suc j)
    then have j: "j < length xs"
      using Cons.prems(4) by simp
    show ?thesis
    proof (cases x)
      case Lock
      let ?b1 = "b\<lparr>n_locks := Suc (n_locks b)\<rparr>"
      let ?w1 = "set_buffer p ?b1 w"
      have st: "step p x w = Inr (True, ?w1)"
        using Lock Cons.prems(1) by (simp add: lock_live)
      have "bufs ?w1 p = Some ?b1" "\<not> dropped ?b1" "held (n_locks ?b1) xs"
        using Cons.prems Lock by simp_all
      from Cons.IH [OF this j]
      obtain rs w' b' es where "run p (take j xs) ?w1 = Inr (rs, w')" "bufs w' p = Some b'"
          "0 < n_locks ?b1 \<or> 0 < j \<longrightarrow> 0 < n_locks b'"
          "trace w' = trace ?w1 @ es" "release_events p es = []"
        by blast
      then show ?thesis
        using st Suc
        by (intro exI [of _ "True # rs"] exI [of _ w'] exI [of _ b'] exI [of _ es]) simp
    next
      case Unlock
      have "xs \<noteq> []" using j by auto
      then have many: "1 < n_locks b" and h: "held (n_locks b - 1) xs"
        using Cons.prems(3) Unlock by (simp_all split: if_splits)
      let ?b1 = "b\<lparr>n_locks := n_locks b - 1\<rparr>"
      let ?w1 = "set_buffer p ?b1 w"
      have "0 < n_locks b" using many by simp
      from unlock_live(1) [OF Cons.prems(1) this many]
      have st: "step p x w = Inr (True, ?w1)"
        using Unlock by simp
      have "bufs ?w1 p = Some ?b1" "\<not> dropped ?b1" "held (n_locks ?b1) xs"
        using Cons.prems h by simp_all
      from Cons.IH [OF this j]
      obtain rs w' b' es where "run p (take j xs) ?w1 = Inr (rs, w')" "bufs w' p = Some b'"
          "0 < n_locks ?b1 \<or> 0 < j \<longrightarrow> 0 < n_locks b'"
          "trace w' = trace ?w1 @ es" "release_events p es = []"
        by blast
      then show ?thesis
        using st Suc many
        by (intro exI [of _ "True # rs"] exI [of _ w'] exI [of _ b'] exI [of _ es]) simp
    qed (use Cons.prems(3) in simp_all)
  qed
qed

lemma held_block_aux: "0 < d \<Longrightarrow> held d (replicate d Unlock)"
proof (induction d)
  case 0
  then show ?case by simp
next
  case (Suc d)
  then show ?case by (cases d) simp_all
qed

lemma held_block_gen: "0 < d + n \<Longrightarrow> held d (replicate n Lock @ replicate (d + n) Unlock)"
proof (induction n arbitrary: d)
  case 0
  then show ?case using held_block_aux by simp
next
  case (Suc n)
  show ?case using Suc.IH [of "Suc d"] by simp
qed

lemma held_block: "0 < n \<Longrightarrow> held 0 (replicate n Lock @ replicate n Unlock)"
  using held_block_gen [of 0 n] by simp

lemma zero_transitions_snoc:
  "zero_transitions (ops @ [x]) =
     zero_transitions ops
       + (if x = Unlock \<and> count_list ops Lock = Suc (count_list ops Unlock) then 1 else 0)"
proof -
  have "filter (\<lambda>k. (ops @ [x]) ! k = Unlock
                  \<and> count_list (take k (ops @ [x])) Lock
                      = Suc (count_list (take k (ops @ [x])) Unlock)) [0..<length ops]
        = filter (\<lambda>k. ops ! k = Unlock
                  \<and> count_list (take k ops) Lock = Suc (count_list (take k ops) Unlock))
            [0..<length ops]"
    by (rule filter_cong) (auto simp add: nth_append)
  then show ?thesis
    by (simp add: zero_transitions_def)
qed

lemma release_tracked_step:
  assumes tr: "tracked p t0 ops w" and rt: "release_tracked p t0 ops w"
    and st: "step p x w = Inr (r, w')"
  shows "release_tracked p t0 (ops @ [x]) w'"
proof (cases "bufs w p")
  case None
  then have "x = ResourceDestroy" "w' = w"
    using step_freed [OF None st] by auto
  then show ?thesis
    using rt by (simp add: release_tracked_def zero_transitions_snoc)
next
  case (Some b)
  have tb: "n_locks b + count_list ops Unlock = count_list ops Lock" "\<not> dead (fields b)"
    using tr Some by (auto simp add: tracked_def)
  obtain es where es: "trace w = t0 @ es"
      "release_events p es = replicate (zero_transitions ops) (EvRelease p)"
    using rt unfolding release_tracked_def by blast
  have "effect p x r b w w'"
    using step_effect [OF Some tb(2) st] by simp
  then obtain es' where es': "trace w' = trace w @ es'"
      "release_events p es' = (if x = Unlock \<and> n_locks b = 1 then [EvRelease p] else [])"
    unfolding effect_def by blast
  have one: "(n_locks b = 1) = (count_list ops Lock = Suc (count_list ops Unlock))"
    using tb(1) by auto
  have "release_events p (es @ es') = replicate (zero_transitions (ops @ [x])) (EvRelease p)"
    using es(2) es'(2) one by (simp add: zero_transitions_snoc replicate_append_same)
  then show ?thesis
    unfolding release_tracked_def using es(1) es'(1) by (intro exI [of _ "es @ es'"]) simp
qed

lemma run_release_tracked:
  assumes "tracked p t0 [] w0" "release_tracked p t0 [] w0" "run p ops w0 = Inr (rs, w)"
  shows "release_tracked p t0 ops w"
  using assms(3)
proof (induction ops arbitrary: rs w rule: rev_induct)
  case Nil
  then show ?case using assms(2) by simp
next
  case (snoc x xs)
  obtain rs1 w1 r where r: "run p xs w0 = Inr (rs1, w1)" "step p x w1 = Inr (r, w)"
    using snoc.prems unfolding run_snoc by blast
  have "tracked p t0 xs w1"
    using run_tracked [OF assms(1) r(1)] by simp
  then show ?case
    using release_tracked_step [OF _ snoc.IH [OF r(1)] r(2)] by simp
qed

lemma locks_then_unlocks:
  assumes "bufs w0 p = Some b0" "n_locks b0 = 0" "j < n"
  shows "\<exists>rs w b. run p (replicate n Lock @ replicate j Unlock) w0 = Inr (rs, w)
           \<and> bufs w p = Some b \<and> n_locks b = n - j \<and> trace w = trace w0"
proof -
  from run_locks [OF assms(1), of n]
  obtain w1 where w1: "run p (replicate n Lock) w0 = Inr (replicate n True, w1)"
      "bufs w1 = (bufs w0)(p \<mapsto> b0\<lparr>n_locks := n_locks b0 + n\<rparr>)" "trace w1 = trace w0"
    by blast
  let ?b1 = "b0\<lparr>n_locks := n_locks b0 + n\<rparr>"
  have live1: "bufs w1 p = Some ?b1"
    using w1(2) by simp
  have "j < n_locks ?b1"
    using assms(2,3) by simp
  from run_unlocks_keep [OF live1 this]
  obtain w2 where w2: "run p (replicate j Unlock) w1 = Inr (replicate j True, w2)"
      "bufs w2 = (bufs w1)(p \<mapsto> ?b1\<lparr>n_locks := n_locks ?b1 - j\<rparr>)" "trace w2 = trace w1"
    by blast
  have "run p (replicate n Lock @ replicate j Unlock) w0
          = Inr (replicate n True @ replicate j True, w2)"
    unfolding run_append using w1(1) w2(1) by blast
  moreover have "bufs w2 p = Some (?b1\<lparr>n_locks := n_locks ?b1 - j\<rparr>)"
    using w2(2) by simp
  ultimately show ?thesis
    using assms(2) w1(3) w2(3) by auto
qed

text \<open>
  Claim C2. Take a live buffer with no lock (which has not been dropped, or it would have
  been destroyed). \<open>n\<close> locks followed by \<open>n\<close> unlocks, for \<open>n\<close> of at least one, run
  without failure, end with \<open>n_locks = 0\<close> and emit the release signal exactly once; after
  the \<open>n\<close> locks and fewer than \<open>n\<close> unlocks the lock count is what is left and nothing
  has been emitted, so the one release is emitted by the last unlock. The same holds of
  every history of lock and unlock calls in which the lock count first returns to zero at
  its last call (\<open>held 0\<close>): these are the interleavings of \<open>n\<close> locks and \<open>n\<close> unlocks
  with further lock/unlock pairs that overlap them. In any history that runs without
  failure the release signal has been emitted once for each unlock that took the lock
  count from one to zero. Unlocking a buffer with no lock fails its assertion.
\<close>

theorem lock_unlock_releases_once:
  assumes "bufs w0 p = Some b0" and "n_locks b0 = 0" and "\<not> dropped b0"
  shows "(0 < n \<longrightarrow>
            (\<exists>rs w b es. run p (replicate n Lock @ replicate n Unlock) w0 = Inr (rs, w)
               \<and> bufs w p = Some b \<and> n_locks b = 0
               \<and> trace w = trace w0 @ es \<and> release_events p es = [EvRelease p])
            \<and> (\<forall>j<n. \<exists>rs w b. run p (replicate n Lock @ replicate j Unlock) w0 = Inr (rs, w)
                  \<and> bufs w p = Some b \<and> n_locks b = n - j \<and> trace w = trace w0))
       \<and> (held 0 ops \<longrightarrow>
            (\<exists>rs w b es. run p ops w0 = Inr (rs, w) \<and> bufs w p = Some b \<and> n_locks b = 0
               \<and> trace w = trace w0 @ es \<and> release_events p es = [EvRelease p])
            \<and> (\<forall>k. 0 < k \<and> k < length ops \<longrightarrow>
                 (\<exists>rs w b es. run p (take k ops) w0 = Inr (rs, w) \<and> bufs w p = Some b
                    \<and> 0 < n_locks b \<and> trace w = trace w0 @ es \<and> release_events p es = [])))
       \<and> (run p ops w0 = Inr (rs, w) \<longrightarrow>
            (\<exists>es. trace w = trace w0 @ es
               \<and> release_events p es = replicate (zero_transitions ops) (EvRelease p)))
       \<and> wlr_buffer_unlock (Some p) w0 = Inl AssertionFailed"
proof (intro conjI impI allI)
  assume "0 < n"
  then have "held (n_locks b0) (replicate n Lock @ replicate n Unlock)"
    using held_block assms(2) by simp
  from held_run [OF assms(1,3) this]
  show "\<exists>rs w b es. run p (replicate n Lock @ replicate n Unlock) w0 = Inr (rs, w)
          \<and> bufs w p = Some b \<and> n_locks b = 0
          \<and> trace w = trace w0 @ es \<and> release_events p es = [EvRelease p]" .
next
  fix j
  assume "j < n"
  from locks_then_unlocks [OF assms(1,2) this]
  show "\<exists>rs w b. run p (replicate n Lock @ replicate j Unlock) w0 = Inr (rs, w)
          \<and> bufs w p = Some b \<and> n_locks b = n - j \<and> trace w = trace w0" .
next
  assume h: "held 0 ops"
  then have h': "held (n_locks b0) ops"
    using assms(2) by simp
  show "\<exists>rs w b es. run p ops w0 = Inr (rs, w) \<and> bufs w p = Some b \<and> n_locks b = 0
          \<and> trace w = trace w0 @ es \<and> release_events p es = [EvRelease p]"
    using held_run [OF assms(1,3) h'] .
  fix k
  assume k: "0 < k \<and> k < length ops"
  then have "k < length ops" by simp
  from held_prefix [OF assms(1,3) h' this]
  show "\<exists>rs w b es. run p (take k ops) w0 = Inr (rs, w) \<and> bufs w p = Some b
          \<and> 0 < n_locks b \<and> trace w = trace w0 @ es \<and> release_events p es = []"
    using k by blast
next
  assume run: "run p ops w0 = Inr (rs, w)"
  have "release_tracked p (trace w0) [] w0"
    by (simp add: release_tracked_def zero_transitions_def)
  from run_release_tracked [OF fresh_tracked [OF assms] this run]
  show "\<exists>es. trace w = trace w0 @ es
          \<and> release_events p es = replicate (zero_transitions ops) (EvRelease p)"
    unfolding release_tracked_def .
next
  show "wlr_buffer_unlock (Some p) w0 = Inl AssertionFailed"
    using unlock_unlocked [OF assms(1,2)] .
qed

theorem lock_unlock_releases_once_witness:
  "\<exists>rs w b. run 0 [Lock, Lock, Unlock, Unlock] example_world = Inr (rs, w)
     \<and> bufs w 0 = Some b \<and> n_locks b = 0 \<and> release_events 0 (trace w) = [EvRelease 0]"
proof -
  have h: "bufs example_world 0 = Some example_buffer" "n_locks example_buffer = 0"
      "\<not> dropped example_buffer"
    by (simp_all add: example_world_def example_buffer_def)
  have two: "0 < (2 :: nat)"
    by simp
  have e: "replicate 2 Lock @ replicate 2 Unlock = [Lock, Lock, Unlock, Unlock]"
    by (simp add: numeral_2_eq_2)
  from lock_unlock_releases_once [OF h, THEN conjunct1, THEN mp, OF two, THEN conjunct1]
  obtain rs w b es where "run 0 [Lock, Lock, Unlock, Unlock] example_world = Inr (rs, w)"
      "bufs w 0 = Some b" "n_locks b = 0" "trace w = trace example_world @ es"
      "release_events 0 es = [EvRelease 0]"
    unfolding e by blast
  then show ?thesis
    by (intro exI [of _ rs] exI [of _ w] exI [of _ b]) (simp add: example_world_def del: run.simps)
qed

section \<open>Scoped data access\<close>








section \<open>Dropping a read-only data buffer under a lock\<close>

lemma after_release_readonly [simp]:
  "after_release (ReadonlyDataBuffer r) = ReadonlyDataBuffer r"
  by (simp add: after_release_def)

lemma resource_destroyed_readonly:
  "bufs w p = Some b \<Longrightarrow> derived b = ReadonlyDataBuffer r \<Longrightarrow> resource_destroyed p w = w"
  by (simp add: resource_destroyed_def)

lemma step_keeps_readonly:
  assumes live: "bufs w p = Some b" and ro: "derived b = ReadonlyDataBuffer r"
    and st: "step p x w = Inr (res, w')"
  shows "bufs w' p = None \<or> (\<exists>b'. bufs w' p = Some b' \<and> derived b' = derived b)"
proof (cases x)
  case Lock
  then show ?thesis
    using st live by (auto simp add: lock_live)
next
  case Unlock
  then have unl: "wlr_buffer_unlock (Some p) w = Inr w'"
    using st by simp
  have pos: "0 < n_locks b"
    using unl unlock_unlocked [OF live] by (cases "n_locks b = 0") auto
  note u = unlock_live [OF live pos]
  consider (many) "1 < n_locks b" | (last_keep) "n_locks b = 1" "\<not> dropped b"
    | (last_acc) "n_locks b = 1" "dropped b" "accessing_data_ptr b"
    | (last_fire) "n_locks b = 1" "dropped b" "\<not> accessing_data_ptr b"
    using pos by linarith
  then show ?thesis
  proof cases
    case many
    then show ?thesis using u(1) unl by auto
  next
    case last_keep
    from u(2) [OF this] show ?thesis using unl ro by auto
  next
    case last_acc
    from u(3) [OF this] show ?thesis using unl by simp
  next
    case last_fire
    from u(4) [OF this] show ?thesis using unl by auto
  qed
next
  case Drop
  then have drp: "wlr_buffer_drop (Some p) w = Inr w'"
    using st by simp
  have nd: "\<not> dropped b"
    using drp drop_dropped [OF live] by (cases "dropped b") auto
  note d = drop_live [OF live nd]
  consider (locked) "0 < n_locks b" | (acc) "n_locks b = 0" "accessing_data_ptr b"
    | (fire) "n_locks b = 0" "\<not> accessing_data_ptr b"
    by auto
  then show ?thesis
  proof cases
    case locked
    then show ?thesis using d(1) drp by auto
  next
    case acc
    from d(2) [OF this] show ?thesis using drp by simp
  next
    case fire
    from d(3) [OF this] show ?thesis using drp by auto
  qed
next
  case BeginAccess
  have na: "\<not> accessing_data_ptr b"
    using st BeginAccess begin_nested [OF live] by (cases "accessing_data_ptr b") auto
  from begin_live [OF live na]
  obtain acc w1 where "buffer_begin_data_ptr_access p w = Inr (acc, w1)"
      "bufs w1 = (bufs w)(p \<mapsto> b\<lparr>accessing_data_ptr := (acc \<noteq> None)\<rparr>)"
    by blast
  then show ?thesis
    using st BeginAccess by auto
next
  case EndAccess
  then have e: "buffer_end_data_ptr_access p w = Inr w'"
    using st by simp
  have a: "accessing_data_ptr b"
    using e end_unmatched [OF live] by (cases "accessing_data_ptr b") auto
  from end_live [OF live a e] show ?thesis by auto
next
  case ResourceDestroy
  then show ?thesis
    using st live resource_destroyed_readonly [OF live ro] by auto
qed

lemma poisoned_step:
  assumes "poisoned p w" "step p x w = Inr (res, w')"
  shows "poisoned p w'"
proof (cases "bufs w p")
  case None
  then show ?thesis
    using step_freed [OF None assms(2)] assms(1) by simp
next
  case (Some b)
  then obtain r where r: "derived b = ReadonlyDataBuffer r" "data r = None"
    using assms(1) by (auto simp add: poisoned_def split: backend.splits)
  from step_keeps_readonly [OF Some r(1) assms(2)]
  show ?thesis
    using r by (auto simp add: poisoned_def)
qed

lemma poisoned_run:
  assumes "poisoned p w" "run p ops w = Inr (rs, w')"
  shows "poisoned p w'"
  using assms
proof (induction ops arbitrary: w rs)
  case Nil
  then show ?case by simp
next
  case (Cons x xs)
  obtain r w1 rs1 where "step p x w = Inr (r, w1)" "run p xs w1 = Inr (rs1, w')"
    using Cons.prems(2) by (auto split: sum.splits)
  then show ?case
    using Cons.IH poisoned_step [OF Cons.prems(1)] by blast
qed

lemma poisoned_begin:
  assumes "poisoned p w"
  shows "buffer_begin_data_ptr_access p w \<noteq> Inr (Some acc, w')"
proof (cases "bufs w p")
  case None
  then show ?thesis by (simp add: buffer_begin_data_ptr_access_def)
next
  case (Some b)
  then obtain r where r: "derived b = ReadonlyDataBuffer r" "data r = None"
    using assms by (auto simp add: poisoned_def split: backend.splits)
  show ?thesis
    using Some r
    by (simp add: buffer_begin_data_ptr_access_def readonly_data_buffer_impl_def
          readonly_data_buffer_begin_data_ptr_access_def)
qed

lemma size_t_product:
  fixes s :: "64 word"
  assumes "0 \<le> h" "unat s * nat h < 2 ^ 64"
  shows "unat (s * word_of_int h) = unat s * nat h"
proof (cases "s = 0")
  case True
  then show ?thesis by simp
next
  case False
  then have "0 < unat s"
    by (simp add: unat_gt_0)
  then have "nat h \<le> unat s * nat h"
    by simp
  then have small: "nat h < 2 ^ 64"
    using assms(2) by linarith
  have "(word_of_int h :: 64 word) = of_nat (nat h)"
    using assms(1) by simp
  then have "unat (word_of_int h :: 64 word) = nat h"
    using small by (simp add: unat_of_nat)
  then show ?thesis
    using assms(2) by (simp add: unat_mult_lem [THEN iffD1])
qed

text \<open>
  Claim C4. Take a read-only data buffer that is locked, not yet dropped and not being
  accessed, over caller memory at \<open>a\<close>. If the allocation of the copy succeeds at a new
  address \<open>q\<close> and the caller's block holds at least the bytes that are copied
  (\<open>stride * height\<close> of them, computed in \<open>size_t\<close>; that is the exact product as long as
  it fits 64 bits), the drop reports success, the buffer stays alive, the new block holds
  those bytes, and after the caller has freed its block a \<open>begin_data_ptr_access\<close> succeeds
  and returns \<open>q\<close>, where the bytes still are. If the allocation fails, the drop reports
  failure, the buffer stays alive, and after any further history of calls no
  \<open>begin_data_ptr_access\<close> returns a pointer.
\<close>

theorem readonly_data_buffer_drop_while_locked:
  assumes "bufs w p = Some b" and "derived b = ReadonlyDataBuffer r"
    and "0 < n_locks b" and "\<not> dropped b" and "\<not> accessing_data_ptr b"
    and "data r = Some a" and "mem w a = Some bytes"
  shows "(q \<notin> dom (mem w) \<and> unat (stride r * word_of_int (height b)) \<le> length bytes \<longrightarrow>
            (\<exists>w1 b1. readonly_data_buffer_drop p (Some q) w = Inr (True, w1)
               \<and> bufs w1 p = Some b1
               \<and> mem w1 q = Some (take (unat (stride r * word_of_int (height b))) bytes)
               \<and> (\<exists>w2. buffer_begin_data_ptr_access p (w1\<lparr>mem := (mem w1)(a := None)\<rparr>)
                           = Inr (Some (Some q, format r, stride r), w2)
                      \<and> mem w2 q
                          = Some (take (unat (stride r * word_of_int (height b))) bytes))))
       \<and> (0 \<le> height b \<and> unat (stride r) * nat (height b) < 2 ^ 64 \<longrightarrow>
            unat (stride r * word_of_int (height b)) = unat (stride r) * nat (height b))
       \<and> (\<exists>w1 b1. readonly_data_buffer_drop p None w = Inr (False, w1)
             \<and> bufs w1 p = Some b1
             \<and> (\<forall>ops rs w2 acc w3. run p ops w1 = Inr (rs, w2) \<longrightarrow>
                   buffer_begin_data_ptr_access p w2 \<noteq> Inr (Some acc, w3)))"
proof (intro conjI impI)
  let ?size = "unat (stride r * word_of_int (height b))"
  assume q: "q \<notin> dom (mem w) \<and> ?size \<le> length bytes"
  then have qa: "q \<noteq> a"
    using assms(7) by auto
  let ?b1 = "b\<lparr>derived := ReadonlyDataBuffer (r\<lparr>saved_data := Some q, data := Some q\<rparr>)\<rparr>"
  let ?w1 = "set_buffer p ?b1 (w\<lparr>mem := (mem w)(q \<mapsto> take ?size bytes)\<rparr>)"
  have live1: "bufs ?w1 p = Some ?b1" by simp
  have "\<not> dropped ?b1" "0 < n_locks ?b1"
    using assms(3,4) by simp_all
  from drop_live(1) [OF live1 this]
  have drp: "wlr_buffer_drop (Some p) ?w1 = Inr (set_buffer p (?b1\<lparr>dropped := True\<rparr>) ?w1)" .
  let ?w2 = "set_buffer p (?b1\<lparr>dropped := True\<rparr>) ?w1"
  have res: "readonly_data_buffer_drop p (Some q) w = Inr (True, ?w2)"
    using assms q drp by (simp add: readonly_data_buffer_drop_def Let_def)
  let ?w3 = "?w2\<lparr>mem := (mem ?w2)(a := None)\<rparr>"
  have "buffer_begin_data_ptr_access p ?w3
          = Inr (Some (Some q, format r, stride r),
                 set_buffer p (?b1\<lparr>dropped := True, accessing_data_ptr := True\<rparr>) ?w3)"
    using assms(2,5)
    by (simp add: buffer_begin_data_ptr_access_def readonly_data_buffer_impl_def
          readonly_data_buffer_begin_data_ptr_access_def)
  moreover have "mem (set_buffer p (?b1\<lparr>dropped := True, accessing_data_ptr := True\<rparr>) ?w3) q
                   = Some (take ?size bytes)"
    using qa by simp
  ultimately have "\<exists>w2. buffer_begin_data_ptr_access p ?w3
                           = Inr (Some (Some q, format r, stride r), w2)
                      \<and> mem w2 q = Some (take ?size bytes)"
    by blast
  moreover have "bufs ?w2 p = Some (?b1\<lparr>dropped := True\<rparr>)" "mem ?w2 q = Some (take ?size bytes)"
    by simp_all
  ultimately show "\<exists>w1 b1. readonly_data_buffer_drop p (Some q) w = Inr (True, w1)
               \<and> bufs w1 p = Some b1
               \<and> mem w1 q = Some (take ?size bytes)
               \<and> (\<exists>w2. buffer_begin_data_ptr_access p (w1\<lparr>mem := (mem w1)(a := None)\<rparr>)
                           = Inr (Some (Some q, format r, stride r), w2)
                      \<and> mem w2 q = Some (take ?size bytes))"
    using res by blast
next
  assume "0 \<le> height b \<and> unat (stride r) * nat (height b) < 2 ^ 64"
  then show "unat (stride r * word_of_int (height b)) = unat (stride r) * nat (height b)"
    using size_t_product by blast
next
  let ?b1 = "b\<lparr>derived := ReadonlyDataBuffer (r\<lparr>saved_data := None, data := None\<rparr>)\<rparr>"
  let ?w1 = "set_buffer p ?b1 w"
  have live1: "bufs ?w1 p = Some ?b1" by simp
  have "\<not> dropped ?b1" "0 < n_locks ?b1"
    using assms(3,4) by simp_all
  from drop_live(1) [OF live1 this]
  have drp: "wlr_buffer_drop (Some p) ?w1 = Inr (set_buffer p (?b1\<lparr>dropped := True\<rparr>) ?w1)" .
  let ?w2 = "set_buffer p (?b1\<lparr>dropped := True\<rparr>) ?w1"
  have res: "readonly_data_buffer_drop p None w = Inr (False, ?w2)"
    using assms drp by (simp add: readonly_data_buffer_drop_def Let_def)
  have p2: "poisoned p ?w2"
    by (simp add: poisoned_def)
  have "\<forall>ops rs w2 acc w3. run p ops ?w2 = Inr (rs, w2) \<longrightarrow>
           buffer_begin_data_ptr_access p w2 \<noteq> Inr (Some acc, w3)"
    using poisoned_run [OF p2] poisoned_begin by blast
  moreover have "bufs ?w2 p = Some (?b1\<lparr>dropped := True\<rparr>)"
    by simp
  ultimately show "\<exists>w1 b1. readonly_data_buffer_drop p None w = Inr (False, w1)
             \<and> bufs w1 p = Some b1
             \<and> (\<forall>ops rs w2 acc w3. run p ops w1 = Inr (rs, w2) \<longrightarrow>
                   buffer_begin_data_ptr_access p w2 \<noteq> Inr (Some acc, w3))"
    using res by blast
qed

theorem readonly_data_buffer_drop_while_locked_witness:
  "\<exists>w1 w2. readonly_data_buffer_drop 0 (Some 200) example_locked = Inr (True, w1)
     \<and> buffer_begin_data_ptr_access 0 (w1\<lparr>mem := (mem w1)(100 := None)\<rparr>)
          = Inr (Some (Some 200, 0x34325241, 16), w2)
     \<and> mem w2 200 = Some (map of_nat [0..<64])"
proof -
  let ?b = "example_buffer\<lparr>n_locks := 1\<rparr>"
  let ?r = "\<lparr>data = Some 100, format = 0x34325241, stride = 16, saved_data = None\<rparr>"
  let ?bytes = "map of_nat [0..<64] :: byte list"
  have h: "bufs example_locked 0 = Some ?b" "derived ?b = ReadonlyDataBuffer ?r"
      "0 < n_locks ?b" "\<not> dropped ?b" "\<not> accessing_data_ptr ?b"
      "data ?r = Some 100" "mem example_locked 100 = Some ?bytes"
    by (simp_all add: example_locked_def example_world_def example_buffer_def)
  have size: "unat (stride ?r * word_of_int (height ?b)) = 64"
    by (simp add: example_buffer_def)
  have pre: "200 \<notin> dom (mem example_locked)
               \<and> unat (stride ?r * word_of_int (height ?b)) \<le> length ?bytes"
    unfolding size by (simp add: example_locked_def example_world_def)
  from readonly_data_buffer_drop_while_locked [OF h, THEN conjunct1, THEN mp, OF pre]
  have "\<exists>w1 b1. readonly_data_buffer_drop 0 (Some 200) example_locked = Inr (True, w1)
          \<and> bufs w1 0 = Some b1 \<and> mem w1 200 = Some ?bytes
          \<and> (\<exists>w2. buffer_begin_data_ptr_access 0 (w1\<lparr>mem := (mem w1)(100 := None)\<rparr>)
                      = Inr (Some (Some 200, 0x34325241, 16), w2)
                 \<and> mem w2 200 = Some ?bytes)"
    unfolding size by simp
  then show ?thesis
    by blast
qed

section \<open>Stride validation\<close>

lemma check_stride_exact:
  assumes "bpp fmt div 8 \<noteq> 0" "unat wd * unat (bpp fmt div 8) < 2 ^ 32"
  shows "check_stride fmt strd wd
           = Inr (unat (bpp fmt div 8) dvd unat strd
                  \<and> unat wd * unat (bpp fmt div 8) \<le> unat strd)"
proof -
  have m: "(strd mod (bpp fmt div 8) \<noteq> 0) = (\<not> unat (bpp fmt div 8) dvd unat strd)"
    by (simp add: unat_eq_0 [symmetric] unat_mod dvd_eq_mod_eq_0 del: unat_eq_0)
  have "unat (wd * (bpp fmt div 8)) = unat wd * unat (bpp fmt div 8)"
    using assms(2) by (simp add: unat_mult_lem [THEN iffD1])
  then have l: "(strd < wd * (bpp fmt div 8)) = (unat strd < unat wd * unat (bpp fmt div 8))"
    by (simp add: word_less_nat_alt)
  show ?thesis
    using assms(1) m l by (auto simp add: check_stride_def)
qed

lemma check_stride_multiple:
  assumes "bpp fmt div 8 \<noteq> 0" "\<not> unat (bpp fmt div 8) dvd unat strd"
  shows "check_stride fmt strd wd = Inr False"
proof -
  have m: "(strd mod (bpp fmt div 8) \<noteq> 0) = (\<not> unat (bpp fmt div 8) dvd unat strd)"
    by (simp add: unat_eq_0 [symmetric] unat_mod dvd_eq_mod_eq_0 del: unat_eq_0)
  show ?thesis
    using assms m by (simp add: check_stride_def)
qed

lemma from_pixels_rejected:
  assumes "drm_get_pixel_format_info tabs code = Some fmt" "check_stride fmt strd wd = Inr False"
  shows "gles2_texture_from_pixels tabs env code strd wd ht dat w = Inr (None, w)"
  using assms by (simp add: gles2_texture_from_pixels_def split: option.splits)

lemma write_pixels_rejected:
  assumes "gles2_get_texture tp w = Some t"
    and "get_gles2_format_from_drm tabs (drm_format t) = Some gfmt"
    and "drm_get_pixel_format_info tabs (drm_format t) = Some fmt"
    and "check_stride fmt strd wd = Inr False"
  shows "gles2_texture_write_pixels tabs tp strd wd ht sx sy dx dy dat w = Inr (False, w)"
  using assms by (simp add: gles2_texture_write_pixels_def)

text \<open>
  Claim C6 as stated fails: the code has no test of its own for a zero stride, which is
  rejected only by the comparison with \<open>width * bytes-per-pixel\<close>. A zero stride with a
  zero width passes validation, and the texture is created.
\<close>

theorem zero_stride_accepted_for_zero_width:
  "check_stride \<lparr>bpp = 32\<rparr> 0 0 = Inr True
   \<and> map_sum id fst
        (gles2_texture_from_pixels example_tables example_env 0x34325241 0 0 4 None example_world)
       = Inr (Some 7)"
  by (simp add: check_stride_def gles2_texture_from_pixels_def example_tables_def
        example_env_def)

text \<open>
  Claim C6, amended. For a format of at least one byte per pixel: a stride that is not a
  multiple of the bytes per pixel is rejected; when \<open>width * bytes-per-pixel\<close> fits 32
  bits, validation accepts exactly the strides that are a multiple of the bytes per pixel
  and at least \<open>width * bytes-per-pixel\<close>, so that a smaller stride is rejected, and a zero
  stride is rejected for every width of at least one pixel whose \<open>width * bytes-per-pixel\<close>
  fits 32 bits. A rejected stride makes texture
  creation from pixels and \<open>write_pixels\<close> fail with the world unchanged: no GL or EGL call
  has been issued and no texture has been registered.
\<close>

theorem stride_validation_before_gpu:
  assumes "bpp fmt div 8 \<noteq> 0"
  shows "(\<not> unat (bpp fmt div 8) dvd unat strd \<longrightarrow> check_stride fmt strd wd = Inr False)
       \<and> (unat wd * unat (bpp fmt div 8) < 2 ^ 32 \<longrightarrow>
            check_stride fmt strd wd
              = Inr (unat (bpp fmt div 8) dvd unat strd
                     \<and> unat wd * unat (bpp fmt div 8) \<le> unat strd))
       \<and> (0 < unat wd \<and> unat wd * unat (bpp fmt div 8) < 2 ^ 32 \<longrightarrow>
            check_stride fmt 0 wd = Inr False)
       \<and> (drm_get_pixel_format_info tabs code = Some fmt
            \<and> check_stride fmt strd wd = Inr False \<longrightarrow>
            gles2_texture_from_pixels tabs env code strd wd ht dat w = Inr (None, w))
       \<and> (gles2_get_texture tp w = Some t
            \<and> get_gles2_format_from_drm tabs (drm_format t) = Some gfmt
            \<and> drm_get_pixel_format_info tabs (drm_format t) = Some fmt
            \<and> check_stride fmt strd wd = Inr False \<longrightarrow>
            gles2_texture_write_pixels tabs tp strd wd ht sx sy dx dy dat w = Inr (False, w))"
proof (intro conjI impI)
  assume "\<not> unat (bpp fmt div 8) dvd unat strd"
  then show "check_stride fmt strd wd = Inr False"
    using check_stride_multiple [OF assms] by simp
next
  assume "unat wd * unat (bpp fmt div 8) < 2 ^ 32"
  then show "check_stride fmt strd wd
              = Inr (unat (bpp fmt div 8) dvd unat strd
                     \<and> unat wd * unat (bpp fmt div 8) \<le> unat strd)"
    using check_stride_exact [OF assms] by simp
next
  assume a: "0 < unat wd \<and> unat wd * unat (bpp fmt div 8) < 2 ^ 32"
  have "0 < unat (bpp fmt div 8)"
    using assms by (simp add: unat_gt_0)
  then have "0 < unat wd * unat (bpp fmt div 8)"
    using a by simp
  then show "check_stride fmt 0 wd = Inr False"
    using check_stride_exact [OF assms, of wd 0] a by simp
next
  assume "drm_get_pixel_format_info tabs code = Some fmt \<and> check_stride fmt strd wd = Inr False"
  then show "gles2_texture_from_pixels tabs env code strd wd ht dat w = Inr (None, w)"
    using from_pixels_rejected by simp
next
  assume "gles2_get_texture tp w = Some t
            \<and> get_gles2_format_from_drm tabs (drm_format t) = Some gfmt
            \<and> drm_get_pixel_format_info tabs (drm_format t) = Some fmt
            \<and> check_stride fmt strd wd = Inr False"
  then show "gles2_texture_write_pixels tabs tp strd wd ht sx sy dx dy dat w = Inr (False, w)"
    using write_pixels_rejected by simp
qed

theorem stride_validation_before_gpu_witness:
  "check_stride \<lparr>bpp = 32\<rparr> 0 4 = Inr False
   \<and> check_stride \<lparr>bpp = 32\<rparr> 12 4 = Inr False
   \<and> check_stride \<lparr>bpp = 32\<rparr> 18 4 = Inr False
   \<and> check_stride \<lparr>bpp = 32\<rparr> 16 4 = Inr True
   \<and> gles2_texture_from_pixels example_tables example_env 0x34325241 12 4 4 None example_world
       = Inr (None, example_world)"
proof -
  have b: "bpp \<lparr>bpp = 32\<rparr> div 8 \<noteq> (0 :: u32)"
    by simp
  note inst = stride_validation_before_gpu [OF b]
  have fits: "unat (4 :: u32) * unat (bpp \<lparr>bpp = 32\<rparr> div 8 :: u32) < 2 ^ 32"
    by simp
  have z: "check_stride \<lparr>bpp = 32\<rparr> 0 4 = Inr False"
    using inst [of 0 4, THEN conjunct2, THEN conjunct2, THEN conjunct1] by simp
  have s: "check_stride \<lparr>bpp = 32\<rparr> 12 4 = Inr False"
    using inst [of 12 4, THEN conjunct2, THEN conjunct1, THEN mp, OF fits] by simp
  have m: "check_stride \<lparr>bpp = 32\<rparr> 18 4 = Inr False"
    using inst [of 18 4, THEN conjunct1] by simp
  have ok: "check_stride \<lparr>bpp = 32\<rparr> 16 4 = Inr True"
    using inst [of 16 4, THEN conjunct2, THEN conjunct1, THEN mp, OF fits] by simp
  have t: "drm_get_pixel_format_info example_tables 0x34325241 = Some \<lparr>bpp = 32\<rparr>"
    by (simp add: example_tables_def)
  have "gles2_texture_from_pixels example_tables example_env 0x34325241 12 4 4 None example_world
       = Inr (None, example_world)"
    using inst [of 12 4 example_tables "0x34325241", THEN conjunct2, THEN conjunct2,
                THEN conjunct2, THEN conjunct1, THEN mp] t s
    by simp
  then show ?thesis
    using z s m ok by simp
qed

text \<open>
  The comparison of the stride with \<open>width * bytes-per-pixel\<close> is made in 32-bit
  arithmetic: when the product does not fit, a stride far below it passes validation.
\<close>

lemma check_stride_wraps: "check_stride \<lparr>bpp = 32\<rparr> 4 0x40000000 = Inr True"
  by (simp add: check_stride_def)

section \<open>Writing pixels to a texture\<close>

lemma write_pixels_immutable:
  assumes "gles2_get_texture tp w = Some t" "target t \<noteq> GL_TEXTURE_2D \<or> image t \<noteq> None"
  shows "gles2_texture_write_pixels tabs tp strd wd ht sx sy dx dy dat w = Inr (False, w)"
  using assms by (auto simp add: gles2_texture_write_pixels_def)

lemma write_pixels_result:
  assumes "gles2_get_texture tp w = Some t"
    and "gles2_texture_write_pixels tabs tp strd wd ht sx sy dx dy dat w = Inr (ok, w')"
  shows "if ok
         then target t = GL_TEXTURE_2D \<and> image t = None
                \<and> (\<exists>es. w' = emit es w
                      \<and> filter is_upload es = [Gpu (GlTexSubImage2D dx dy wd ht dat)])
         else w' = w"
  using assms
  by (auto simp add: gles2_texture_write_pixels_def
        split: option.splits sum.splits bool.splits if_splits)

lemma from_dmabuf_imported:
  assumes "gles2_texture_from_dmabuf env attribs w0 = Inr (Some tp, w)"
  shows "\<exists>t img. gles2_get_texture tp w = Some t \<and> image t = Some img \<and> buffer t = None
           \<and> textures w = t # textures w0 \<and> self t = tp \<and> bufs w = bufs w0
           \<and> resources w = resources w0"
  using assms
  by (auto simp add: gles2_texture_from_dmabuf_def gles2_get_texture_def Let_def
        split: if_splits option.splits)

text \<open>
  Claim C9. A texture is mutable when its target is \<open>GL_TEXTURE_2D\<close> and it has no EGL
  image; an imported texture has an image, and the external target when it can only be
  sampled externally. \<open>write_pixels\<close> on a texture that is not mutable is refused: it
  returns false (the code reports the violated precondition through its result and an
  error message, not through an assertion) and leaves the world as it was, so that nothing
  is uploaded. That holds for every texture that \<open>gles2_texture_from_dmabuf\<close> has imported.
  Whenever \<open>write_pixels\<close> returns true, the texture was mutable and exactly one upload has
  been issued, that of the given region.
\<close>

theorem write_pixels_only_on_mutable:
  assumes "gles2_get_texture tp w = Some t"
  shows "(target t \<noteq> GL_TEXTURE_2D \<or> image t \<noteq> None \<longrightarrow>
            gles2_texture_write_pixels tabs tp strd wd ht sx sy dx dy dat w = Inr (False, w))
       \<and> (gles2_texture_write_pixels tabs tp strd wd ht sx sy dx dy dat w = Inr (True, w') \<longrightarrow>
            target t = GL_TEXTURE_2D \<and> image t = None
            \<and> (\<exists>es. w' = emit es w
                  \<and> filter is_upload es = [Gpu (GlTexSubImage2D dx dy wd ht dat)]))
       \<and> (gles2_texture_from_dmabuf env attribs w0 = Inr (Some tp, w) \<longrightarrow>
            gles2_texture_write_pixels tabs tp strd wd ht sx sy dx dy dat w = Inr (False, w))"
proof (intro conjI impI)
  assume "target t \<noteq> GL_TEXTURE_2D \<or> image t \<noteq> None"
  then show "gles2_texture_write_pixels tabs tp strd wd ht sx sy dx dy dat w = Inr (False, w)"
    using write_pixels_immutable [OF assms] by simp
next
  assume "gles2_texture_write_pixels tabs tp strd wd ht sx sy dx dy dat w = Inr (True, w')"
  from write_pixels_result [OF assms this]
  show "target t = GL_TEXTURE_2D" and "image t = None"
    and "\<exists>es. w' = emit es w
           \<and> filter is_upload es = [Gpu (GlTexSubImage2D dx dy wd ht dat)]"
    by simp_all
next
  assume "gles2_texture_from_dmabuf env attribs w0 = Inr (Some tp, w)"
  from from_dmabuf_imported [OF this]
  obtain t' img where "gles2_get_texture tp w = Some t'" "image t' = Some img"
    by blast
  then show "gles2_texture_write_pixels tabs tp strd wd ht sx sy dx dy dat w = Inr (False, w)"
    using write_pixels_immutable by simp
qed

theorem write_pixels_only_on_mutable_witness:
  "gles2_texture_write_pixels example_tables 7 16 4 4 0 0 0 0 (Some 100) example_imported
     = Inr (False, example_imported)"
proof -
  let ?t = "\<lparr>self = 7, t_width = 4, t_height = 4, target = GL_TEXTURE_EXTERNAL_OES,
         image = Some 5, tex = 1, has_alpha = True, drm_format = DRM_FORMAT_INVALID,
         inverted_y = False, buffer = None\<rparr>"
  have g: "gles2_get_texture 7 example_imported = Some ?t"
    by (simp add: gles2_get_texture_def example_imported_def)
  have "target ?t \<noteq> GL_TEXTURE_2D \<or> image ?t \<noteq> None"
    by simp
  from write_pixels_only_on_mutable [OF g, THEN conjunct1, THEN mp, OF this]
  show ?thesis .
qed

section \<open>Damage updates\<close>

lemma emit_emit [simp]: "emit es2 (emit es1 w) = emit (es1 @ es2) w"
  by (simp add: emit_def)

lemma emit_Nil [simp]: "emit [] w = w"
  by (simp add: emit_def)

lemma get_texture_emit [simp]: "gles2_get_texture tp (emit es w) = gles2_get_texture tp w"
  by (simp add: gles2_get_texture_def)

lemma write_pixels_no_texture:
  "gles2_get_texture tp w = None \<Longrightarrow>
     gles2_texture_write_pixels tabs tp strd wd ht sx sy dx dy dat w = Inl UseAfterFree"
  by (simp add: gles2_texture_write_pixels_def)

lemma write_damage_uploads:
  assumes "write_damage tabs tp strd dat rs w = Inr (True, w1)"
  shows "\<exists>es. w1 = emit es w \<and> filter is_upload es = map (upload_of dat) rs"
  using assms
proof (induction rs arbitrary: w)
  case Nil
  then show ?case by (intro exI [of _ "[]"]) simp
next
  case (Cons r rs)
  let ?wp = "gles2_texture_write_pixels tabs tp strd (x2 r - x1 r) (y2 r - y1 r)
               (x1 r) (y1 r) (x1 r) (y1 r) dat w"
  obtain w2 where w2: "?wp = Inr (True, w2)" "write_damage tabs tp strd dat rs w2 = Inr (True, w1)"
    using Cons.prems by (auto split: sum.splits bool.splits)
  obtain t where t: "gles2_get_texture tp w = Some t"
    using w2(1) write_pixels_no_texture [of tp w] by (cases "gles2_get_texture tp w") auto
  from write_pixels_result [OF t w2(1)]
  obtain es where es: "w2 = emit es w" "filter is_upload es = [upload_of dat r]"
    by (auto simp add: upload_of_def)
  from Cons.IH [OF w2(2)]
  obtain es' where es': "w1 = emit es' w2" "filter is_upload es' = map (upload_of dat) rs"
    by blast
  show ?case
    using es es' by (intro exI [of _ "es @ es'"]) simp
qed

lemma write_damage_abort:
  assumes "write_damage tabs tp strd dat pre w = Inr (True, w1)"
    and "gles2_texture_write_pixels tabs tp strd (x2 r - x1 r) (y2 r - y1 r)
           (x1 r) (y1 r) (x1 r) (y1 r) dat w1 = Inr (False, w2)"
  shows "write_damage tabs tp strd dat (pre @ r # rest) w = Inr (False, w2)"
  using assms
proof (induction pre arbitrary: w)
  case Nil
  then show ?case by simp
next
  case (Cons a pre)
  let ?wp = "gles2_texture_write_pixels tabs tp strd (x2 a - x1 a) (y2 a - y1 a)
               (x1 a) (y1 a) (x1 a) (y1 a) dat w"
  obtain w' where w': "?wp = Inr (True, w')" "write_damage tabs tp strd dat pre w' = Inr (True, w1)"
    using Cons.prems(1) by (auto split: sum.splits bool.splits)
  from Cons.IH [OF w'(2) Cons.prems(2)]
  show ?case
    using w'(1) by simp
qed

lemma write_pixels_failure_changes_nothing:
  assumes "gles2_texture_write_pixels tabs tp strd wd ht sx sy dx dy dat w = Inr (False, w')"
  shows "w' = w"
proof (cases "gles2_get_texture tp w")
  case None
  then show ?thesis
    using assms write_pixels_no_texture [OF None] by simp
next
  case (Some t)
  from write_pixels_result [OF Some assms] show ?thesis by simp
qed

text \<open>
  Claim C8. Take a damage update that reaches the upload loop (a client buffer with at
  most one lock, old and new resource both shared-memory buffers of the same format, the
  new one of the size of the texture). If the regions \<open>pre\<close> are uploaded and the upload
  of the next region \<open>r\<close> fails, the whole update fails: it returns \<open>NULL\<close> whatever
  regions \<open>rest\<close> follow, and none of them is uploaded. The uploads that have been issued
  are exactly those of \<open>pre\<close>, in order: nothing is rolled back. The client buffer is
  left as it was, so that no release is sent for the new resource.
\<close>

theorem damage_update_aborts_at_first_failure:
  assumes "resources w res = Some (ShmResource shm_buf)"
    and "bufs w p = Some b" and "derived b = ClientBuffer c" and "n_locks b \<le> 1"
    and "resource c = Some old_res" and "resources w old_res = Some (ShmResource old_shm_buf)"
    and "sb_format shm_buf = sb_format old_shm_buf"
    and "gles2_get_texture (texture c) w = Some t"
    and "sb_width shm_buf = t_width t" and "sb_height shm_buf = t_height t"
    and "write_damage tabs (texture c) (sb_stride shm_buf) (Some (sb_data shm_buf)) pre
           (emit [WlShmBufferBeginAccess] w) = Inr (True, w1)"
    and "gles2_texture_write_pixels tabs (texture c) (sb_stride shm_buf)
           (x2 r - x1 r) (y2 r - y1 r) (x1 r) (y1 r) (x1 r) (y1 r)
           (Some (sb_data shm_buf)) w1 = Inr (False, w2)"
  shows "\<exists>es. wlr_client_buffer_apply_damage tabs p res (pre @ r # rest) w
                = Inr (None, emit (WlShmBufferBeginAccess # es @ [WlShmBufferEndAccess]) w)
           \<and> filter is_upload es = map (upload_of (Some (sb_data shm_buf))) pre"
proof -
  have w2: "w2 = w1"
    using write_pixels_failure_changes_nothing [OF assms(12)] .
  from write_damage_uploads [OF assms(11)]
  obtain es where es: "w1 = emit es (emit [WlShmBufferBeginAccess] w)"
      "filter is_upload es = map (upload_of (Some (sb_data shm_buf))) pre"
    by blast
  have "write_damage tabs (texture c) (sb_stride shm_buf) (Some (sb_data shm_buf))
          (pre @ r # rest) (emit [WlShmBufferBeginAccess] w) = Inr (False, w1)"
    using write_damage_abort [OF assms(11,12)] w2 by simp
  then have "wlr_client_buffer_apply_damage tabs p res (pre @ r # rest) w
               = Inr (None, emit [WlShmBufferEndAccess] w1)"
    using assms(1-10)
    by (simp add: wlr_client_buffer_apply_damage_def wl_shm_buffer_get_def)
  then show ?thesis
    using es by (intro exI [of _ es]) simp
qed

theorem damage_update_aborts_at_first_failure_witness:
  "\<exists>es. wlr_client_buffer_apply_damage example_tables 0 2
           ([\<lparr>x1 = 0, y1 = 0, x2 = 2, y2 = 2\<rparr>] @ \<lparr>x1 = 0, y1 = 0, x2 = 8, y2 = 2\<rparr>
              # [\<lparr>x1 = 1, y1 = 1, x2 = 2, y2 = 2\<rparr>]) example_client_world
          = Inr (None, emit (WlShmBufferBeginAccess # es @ [WlShmBufferEndAccess])
                         example_client_world)
      \<and> filter is_upload es = [Gpu (GlTexSubImage2D 0 0 2 2 (Some 300))]"
proof -
  let ?c = "\<lparr>resource = Some 1, resource_released = True, texture = 7\<rparr>"
  let ?pre = "[\<lparr>x1 = 0, y1 = 0, x2 = 2, y2 = 2\<rparr>]"
  let ?r = "\<lparr>x1 = 0, y1 = 0, x2 = 8, y2 = 2\<rparr>"
  let ?w0 = "emit [WlShmBufferBeginAccess] example_client_world"
  let ?wd = "write_damage example_tables (texture ?c) (sb_stride example_shm)
               (Some (sb_data example_shm)) ?pre ?w0"
  have h: "resources example_client_world 2 = Some (ShmResource example_shm)"
      "bufs example_client_world 0 = Some example_client_buffer"
      "derived example_client_buffer = ClientBuffer ?c" "n_locks example_client_buffer \<le> 1"
      "resource ?c = Some 1" "resources example_client_world 1 = Some (ShmResource example_shm)"
      "sb_format example_shm = sb_format example_shm"
      "gles2_get_texture (texture ?c) example_client_world = Some example_texture"
      "sb_width example_shm = t_width example_texture"
      "sb_height example_shm = t_height example_texture"
    by (simp_all add: example_client_world_def example_client_buffer_def example_shm_def
          example_texture_def gles2_get_texture_def)
  have "\<exists>w1. ?wd = Inr (True, w1)"
    by (simp add: gles2_texture_write_pixels_def gles2_get_texture_def check_stride_def
          example_client_world_def example_texture_def example_tables_def example_shm_def)
  then obtain w1 where pre: "?wd = Inr (True, w1)"
    by blast
  from write_damage_uploads [OF pre]
  obtain es where w1: "w1 = emit es ?w0"
    by blast
  have fail: "gles2_texture_write_pixels example_tables (texture ?c) (sb_stride example_shm)
           (x2 ?r - x1 ?r) (y2 ?r - y1 ?r) (x1 ?r) (y1 ?r) (x1 ?r) (y1 ?r)
           (Some (sb_data example_shm)) w1 = Inr (False, w1)"
    unfolding w1
    by (simp add: gles2_texture_write_pixels_def gles2_get_texture_def check_stride_def
          example_client_world_def example_texture_def example_tables_def example_shm_def)
  from damage_update_aborts_at_first_failure [OF h pre fail,
         of "[\<lparr>x1 = 1, y1 = 1, x2 = 2, y2 = 2\<rparr>]"]
  show ?thesis
    by (simp add: upload_of_def example_shm_def)
qed

section \<open>Importing a DMA-BUF buffer twice\<close>

lemma get_dmabuf_depends:
  assumes "bufs w p = Some b" "bufs w1 p = Some b1" "derived b1 = derived b"
    and "resources w1 = resources w"
  shows "wlr_buffer_get_dmabuf p w1 = wlr_buffer_get_dmabuf p w"
  using assms
  by (cases "derived b")
     (simp_all add: wlr_buffer_get_dmabuf_def client_buffer_impl_def shm_client_buffer_impl_def
        readonly_data_buffer_impl_def dmabuf_buffer_impl_def client_buffer_get_dmabuf_def
        dmabuf_buffer_get_dmabuf_def split: option.splits)

lemma invalidate_result:
  "\<exists>es. gles2_texture_invalidate t w = (image t \<noteq> None, emit es w)
        \<and> Gpu EglCreateImageFromDmabuf \<notin> set es"
proof (cases "image t")
  case None
  then show ?thesis
    by (intro exI [of _ "[]"]) (simp add: gles2_texture_invalidate_def)
next
  case (Some img)
  show ?thesis
  proof (cases "target t = GL_TEXTURE_EXTERNAL_OES")
    case True
    then show ?thesis
      using Some by (intro exI [of _ "[]"]) (simp add: gles2_texture_invalidate_def)
  next
    case False
    then show ?thesis
      using Some
      by (intro exI [of _ "map Gpu
               [EglSaveContext, EglMakeCurrent, PushDebug,
                GlBindTexture (target t) (tex t),
                GlEGLImageTargetTexture2DOES (target t) img,
                GlBindTexture (target t) 0,
                PopDebug, EglRestoreContext]"])
         (simp add: gles2_texture_invalidate_def)
  qed
qed

lemma import_reuses:
  assumes "bufs w p = Some b" "wlr_buffer_get_dmabuf p w = Inr (Some attribs)"
    and "find (\<lambda>t. buffer t = Some p) (textures w) = Some t" "image t \<noteq> None"
  shows "\<exists>es. gles2_texture_from_buffer tabs env p w
                = Inr (Some (self t), set_buffer p (b\<lparr>n_locks := Suc (n_locks b)\<rparr>) (emit es w))
           \<and> Gpu EglCreateImageFromDmabuf \<notin> set es"
proof -
  obtain es where es: "gles2_texture_invalidate t w = (image t \<noteq> None, emit es w)"
      "Gpu EglCreateImageFromDmabuf \<notin> set es"
    using invalidate_result by blast
  have "bufs (emit es w) p = Some b"
    using assms(1) by simp
  then have "wlr_buffer_lock p (emit es w)
               = Inr (set_buffer p (b\<lparr>n_locks := Suc (n_locks b)\<rparr>) (emit es w))"
    by (rule lock_live)
  then have "gles2_texture_from_buffer tabs env p w
               = Inr (Some (self t), set_buffer p (b\<lparr>n_locks := Suc (n_locks b)\<rparr>) (emit es w))"
    using assms es(1)
    by (simp add: gles2_texture_from_buffer_def gles2_texture_from_dmabuf_buffer_def)
  then show ?thesis
    using es(2) by blast
qed

lemma import_registers:
  assumes "bufs w p = Some b" "wlr_buffer_get_dmabuf p w = Inr (Some attribs)"
    and "gles2_texture_from_buffer tabs env p w = Inr (Some t1, w1)"
  shows "\<exists>t b1. find (\<lambda>t. buffer t = Some p) (textures w1) = Some t \<and> self t = t1
           \<and> image t \<noteq> None \<and> bufs w1 p = Some b1 \<and> derived b1 = derived b
           \<and> resources w1 = resources w"
proof (cases "find (\<lambda>t. buffer t = Some p) (textures w)")
  case (Some t)
  obtain es where es: "gles2_texture_invalidate t w = (image t \<noteq> None, emit es w)"
    using invalidate_result by blast
  have img: "image t \<noteq> None"
    using assms Some es
    by (cases "image t")
       (auto simp add: gles2_texture_from_buffer_def gles2_texture_from_dmabuf_buffer_def)
  from import_reuses [OF assms(1,2) Some img, of tabs env]
  obtain es' where "gles2_texture_from_buffer tabs env p w
      = Inr (Some (self t), set_buffer p (b\<lparr>n_locks := Suc (n_locks b)\<rparr>) (emit es' w))"
    by blast
  then have "t1 = self t" "w1 = set_buffer p (b\<lparr>n_locks := Suc (n_locks b)\<rparr>) (emit es' w)"
    using assms(3) by simp_all
  then show ?thesis
    using Some img by (intro exI [of _ t] exI [of _ "b\<lparr>n_locks := Suc (n_locks b)\<rparr>"]) simp
next
  case None
  have fb: "gles2_texture_from_buffer tabs env p w
              = (case gles2_texture_from_dmabuf env attribs w of
                   Inl e \<Rightarrow> Inl e
                 | Inr (None, w') \<Rightarrow> Inr (None, w')
                 | Inr (Some ta, w') \<Rightarrow>
                     (case wlr_buffer_lock p w' of
                        Inl e \<Rightarrow> Inl e
                      | Inr w2 \<Rightarrow>
                          Inr (Some ta,
                               w2\<lparr>textures :=
                                    map (\<lambda>t. if self t = ta then t\<lparr>buffer := Some p\<rparr> else t)
                                      (textures w2)\<rparr>)))"
    using assms(2) None
    by (simp add: gles2_texture_from_buffer_def gles2_texture_from_dmabuf_buffer_def)
  obtain ta w' where fd: "gles2_texture_from_dmabuf env attribs w = Inr (Some ta, w')"
    using assms(3) unfolding fb by (auto split: sum.splits option.splits)
  from from_dmabuf_imported [OF fd]
  obtain t img where t: "image t = Some img" "textures w' = t # textures w" "self t = ta"
      "bufs w' = bufs w" "resources w' = resources w"
    by blast
  have "bufs w' p = Some b"
    using t(4) assms(1) by simp
  then have lk: "wlr_buffer_lock p w' = Inr (set_buffer p (b\<lparr>n_locks := Suc (n_locks b)\<rparr>) w')"
    by (rule lock_live)
  have res: "t1 = ta"
      "w1 = (set_buffer p (b\<lparr>n_locks := Suc (n_locks b)\<rparr>) w')
              \<lparr>textures := map (\<lambda>t. if self t = ta then t\<lparr>buffer := Some p\<rparr> else t)
                             (textures (set_buffer p (b\<lparr>n_locks := Suc (n_locks b)\<rparr>) w'))\<rparr>"
    using assms(3) fd lk by (auto simp add: fb)
  show ?thesis
    unfolding res using t
    by (intro exI [of _ "t\<lparr>buffer := Some p\<rparr>"] exI [of _ "b\<lparr>n_locks := Suc (n_locks b)\<rparr>"])
       simp
qed

text \<open>
  Claim C5. Take a buffer that exports a DMA-BUF and an import of it that returned a
  texture. A second import, with whatever answers of the allocator and of EGL, returns the
  same texture; the world after it is the world before it with the lock count of the
  buffer increased by one and with GL calls appended to the trace, none of which creates an
  EGL image: the registry of textures is unchanged. The same holds in every later world in
  which the texture is still the registered texture of the buffer.
\<close>

theorem second_import_reuses_texture:
  assumes "bufs w p = Some b" and "wlr_buffer_get_dmabuf p w = Inr (Some attribs)"
    and "gles2_texture_from_buffer tabs env1 p w = Inr (Some t1, w1)"
  shows "(\<exists>b1 es. bufs w1 p = Some b1
            \<and> gles2_texture_from_buffer tabs env2 p w1
                = Inr (Some t1, set_buffer p (b1\<lparr>n_locks := Suc (n_locks b1)\<rparr>) (emit es w1))
            \<and> Gpu EglCreateImageFromDmabuf \<notin> set es)
       \<and> (\<forall>w' b' attribs' t.
            bufs w' p = Some b' \<and> wlr_buffer_get_dmabuf p w' = Inr (Some attribs')
            \<and> find (\<lambda>t. buffer t = Some p) (textures w') = Some t \<and> image t \<noteq> None \<longrightarrow>
            (\<exists>es. gles2_texture_from_buffer tabs env2 p w'
                     = Inr (Some (self t),
                            set_buffer p (b'\<lparr>n_locks := Suc (n_locks b')\<rparr>) (emit es w'))
                \<and> Gpu EglCreateImageFromDmabuf \<notin> set es))"
proof (intro conjI allI impI)
  from import_registers [OF assms]
  obtain t b1 where t: "find (\<lambda>t. buffer t = Some p) (textures w1) = Some t" "self t = t1"
      "image t \<noteq> None" "bufs w1 p = Some b1" "derived b1 = derived b"
      "resources w1 = resources w"
    by blast
  have "wlr_buffer_get_dmabuf p w1 = Inr (Some attribs)"
    using get_dmabuf_depends [OF assms(1) t(4,5,6)] assms(2) by simp
  from import_reuses [OF t(4) this t(1,3), of tabs env2]
  show "\<exists>b1 es. bufs w1 p = Some b1
            \<and> gles2_texture_from_buffer tabs env2 p w1
                = Inr (Some t1, set_buffer p (b1\<lparr>n_locks := Suc (n_locks b1)\<rparr>) (emit es w1))
            \<and> Gpu EglCreateImageFromDmabuf \<notin> set es"
    using t(2,4) by blast
next
  fix w' :: world and b' attribs' t
  assume a: "bufs w' p = Some b' \<and> wlr_buffer_get_dmabuf p w' = Inr (Some attribs')
            \<and> find (\<lambda>t. buffer t = Some p) (textures w') = Some t \<and> image t \<noteq> None"
  show "\<exists>es. gles2_texture_from_buffer tabs env2 p w'
                     = Inr (Some (self t),
                            set_buffer p (b'\<lparr>n_locks := Suc (n_locks b')\<rparr>) (emit es w'))
                \<and> Gpu EglCreateImageFromDmabuf \<notin> set es"
    using import_reuses [of w' p b' attribs' t tabs env2] a by simp
qed

theorem second_import_reuses_texture_witness:
  "\<exists>w1 b1 es. gles2_texture_from_buffer example_tables example_env 0 example_dmabuf_world
                 = Inr (Some 7, w1)
     \<and> bufs w1 0 = Some b1 \<and> n_locks b1 = 2
     \<and> gles2_texture_from_buffer example_tables example_env 0 w1
         = Inr (Some 7, set_buffer 0 (b1\<lparr>n_locks := 3\<rparr>) (emit es w1))
     \<and> Gpu EglCreateImageFromDmabuf \<notin> set es"
proof -
  let ?b = "\<lparr>width = 4, height = 4, dropped = False, n_locks = 1,
             accessing_data_ptr = False,
             derived = DmabufBuffer
               \<lparr>dmabuf = \<lparr>a_width = 4, a_height = 4, a_flags = 0, n_planes = 1\<rparr>,
                saved = False\<rparr>\<rparr>"
  have h: "bufs example_dmabuf_world 0 = Some ?b"
      "wlr_buffer_get_dmabuf 0 example_dmabuf_world
         = Inr (Some \<lparr>a_width = 4, a_height = 4, a_flags = 0, n_planes = 1\<rparr>)"
    by (simp_all add: example_dmabuf_world_def wlr_buffer_get_dmabuf_def dmabuf_buffer_impl_def
          dmabuf_buffer_get_dmabuf_def)
  have "\<exists>w1 b1. gles2_texture_from_buffer example_tables example_env 0 example_dmabuf_world
               = Inr (Some 7, w1) \<and> bufs w1 0 = Some b1 \<and> n_locks b1 = 2"
    by (simp add: gles2_texture_from_buffer_def gles2_texture_from_dmabuf_buffer_def
          gles2_texture_from_dmabuf_def example_env_def wlr_buffer_lock_def Let_def
          example_dmabuf_world_def wlr_buffer_get_dmabuf_def dmabuf_buffer_impl_def
          dmabuf_buffer_get_dmabuf_def set_buffer_def emit_def)
  then obtain w1 b1 where
      w1: "gles2_texture_from_buffer example_tables example_env 0 example_dmabuf_world
             = Inr (Some 7, w1)" "bufs w1 0 = Some b1" "n_locks b1 = 2"
    by blast
  from second_import_reuses_texture [OF h w1(1), of example_env, THEN conjunct1]
  show ?thesis
    using w1 by auto
qed

section \<open>Release acknowledgments\<close>

lemma acks_simps [simp]:
  "acks [] = 0" "acks (xs @ ys) = acks xs + acks ys"
  "acks (WlBufferSendRelease r # es) = Suc (acks es)"
  "acks (EvRelease q # es) = acks es" "acks (EvDestroy q # es) = acks es"
  "acks (EvFree q # es) = acks es" "acks (WlrTextureDestroy q # es) = acks es"
  "acks (WlShmPoolUnref q # es) = acks es" "acks (DmabufAttributesFinish # es) = acks es"
  "acks (map Gpu gs) = 0"
  by (induction gs) (simp_all add: acks_def)

lemma acks_quiet:
  assumes "set es \<subseteq> {WlShmBufferBeginAccess} \<union> {WlShmBufferEndAccess} \<union> range WlShmBufferRefPool"
  shows "acks es = 0"
  using assms by (auto simp add: acks_def filter_empty_conv)

lemma client_msgs:
  assumes "derived b = ClientBuffer c"
  shows "acks (release_msgs b) = (if resource c \<noteq> None \<and> \<not> resource_released c then 1 else 0)"
    and "acks (destroy_msgs b) = (if resource c \<noteq> None \<and> \<not> resource_released c then 1 else 0)"
    and "\<exists>c'. after_release (derived b) = ClientBuffer c' \<and> resource c' = resource c
           \<and> resource_released c' = (resource_released c \<or> resource c \<noteq> None)"
  using assms
  by (auto simp add: release_msgs_def destroy_msgs_def after_release_def split: option.splits)

lemma shm_msgs:
  assumes "derived b = ShmClientBuffer s"
  shows "acks (release_msgs b) \<le> 1" and "acks (destroy_msgs b) = 0"
    and "after_release (derived b) = derived b"
  using assms
  by (auto simp add: release_msgs_def destroy_msgs_def after_release_def split: option.splits)

lemma resource_destroyed_client:
  assumes "bufs w p = Some b" "derived b = ClientBuffer c"
  shows "bufs (resource_destroyed p w) = (bufs w)(p \<mapsto> b\<lparr>derived := ClientBuffer (c\<lparr>resource := None\<rparr>)\<rparr>)"
    and "trace (resource_destroyed p w) = trace w"
proof -
  have idem: "resource c = None \<Longrightarrow>
      bufs w = (bufs w)(p \<mapsto> b\<lparr>derived := ClientBuffer (c\<lparr>resource := None\<rparr>)\<rparr>)"
  proof -
    assume n: "resource c = None"
    then have "c\<lparr>resource := None\<rparr> = c" by simp
    then have "b\<lparr>derived := ClientBuffer (c\<lparr>resource := None\<rparr>)\<rparr> = b"
      using assms(2) by simp
    then show ?thesis
      using assms(1) by (simp add: fun_upd_idem)
  qed
  show "bufs (resource_destroyed p w) = (bufs w)(p \<mapsto> b\<lparr>derived := ClientBuffer (c\<lparr>resource := None\<rparr>)\<rparr>)"
    using assms idem
    by (cases "resource c")
       (simp_all add: resource_destroyed_def client_buffer_resource_handle_destroy_def)
  show "trace (resource_destroyed p w) = trace w"
    using assms
    by (cases "resource c")
       (simp_all add: resource_destroyed_def client_buffer_resource_handle_destroy_def)
qed

lemma resource_destroyed_shm:
  assumes "bufs w p = Some b" "derived b = ShmClientBuffer s"
  shows "\<exists>s' es. bufs (resource_destroyed p w) = (bufs w)(p \<mapsto> b\<lparr>derived := ShmClientBuffer s'\<rparr>)
           \<and> trace (resource_destroyed p w) = trace w @ es \<and> acks es = 0"
proof -
  have keep: "resource_destroyed p w = w \<Longrightarrow> ?thesis"
  proof -
    assume same: "resource_destroyed p w = w"
    have "bufs w = (bufs w)(p \<mapsto> b\<lparr>derived := ShmClientBuffer s\<rparr>)"
      using assms by (simp add: fun_upd_idem flip: assms(2))
    then show ?thesis
      unfolding same by (intro exI [of _ s] exI [of _ "[]"]) simp
  qed
  show ?thesis
  proof (cases "shm_resource s")
    case None
    then show ?thesis
      using assms keep by (simp add: resource_destroyed_def)
  next
    case (Some r)
    show ?thesis
    proof (cases "shm_buffer s")
      case None
      have "bufs w = (bufs w)(p \<mapsto> b\<lparr>derived := ShmClientBuffer s\<rparr>)"
        using assms by (simp add: fun_upd_idem flip: assms(2))
      then show ?thesis
        using assms Some None
        by (intro exI [of _ s] exI [of _ "[]"])
           (simp add: resource_destroyed_def shm_client_buffer_resource_handle_destroy_def)
    next
      case (Some sb)
      then show ?thesis
        using assms \<open>shm_resource s = Some r\<close>
        by (intro exI [of _ "s\<lparr>saved_shm_pool := Some (sb_pool sb),
                              shm_saved_data := Some (sb_data sb),
                              shm_resource := None,
                              shm_buffer := None\<rparr>"] exI [of _ "[WlShmBufferRefPool (sb_pool sb)]"])
           (simp add: resource_destroyed_def shm_client_buffer_resource_handle_destroy_def
              acks_def)
    qed
  qed
qed

lemma client_call_acks:
  assumes live: "bufs w p = Some b" and cb: "derived b = ClientBuffer c"
    and st: "step p x w = Inr (r, w')"
  shows "\<exists>es. trace w' = trace w @ es
           \<and> (case bufs w' p of
                None \<Rightarrow> acks es \<le> (if resource_released c then 0 else 1)
              | Some b' \<Rightarrow>
                  (\<exists>c'. derived b' = ClientBuffer c'
                     \<and> (if resource_released c then resource_released c' \<and> acks es = 0
                         else acks es = 0 \<or> (acks es = 1 \<and> resource_released c'))))"
proof (cases x)
  case Lock
  then have "w' = set_buffer p (b\<lparr>n_locks := Suc (n_locks b)\<rparr>) w"
    using st live by (simp add: lock_live)
  then show ?thesis
    using cb by (intro exI [of _ "[]"]) simp
next
  case Unlock
  then have unl: "wlr_buffer_unlock (Some p) w = Inr w'"
    using st by simp
  have pos: "0 < n_locks b"
    using unl unlock_unlocked [OF live] by (cases "n_locks b = 0") auto
  note u = unlock_live [OF live pos]
  obtain c' where c': "after_release (derived b) = ClientBuffer c'" "resource c' = resource c"
      "resource_released c' = (resource_released c \<or> resource c \<noteq> None)"
    using client_msgs(3) [OF cb] by blast
  note m = client_msgs(1) [OF cb]
  consider (many) "1 < n_locks b" | (last_keep) "n_locks b = 1" "\<not> dropped b"
    | (last_acc) "n_locks b = 1" "dropped b" "accessing_data_ptr b"
    | (last_fire) "n_locks b = 1" "dropped b" "\<not> accessing_data_ptr b"
    using pos by linarith
  then show ?thesis
  proof cases
    case many
    then have "w' = set_buffer p (b\<lparr>n_locks := n_locks b - 1\<rparr>) w"
      using u(1) unl by simp
    then show ?thesis
      using cb by (intro exI [of _ "[]"]) simp
  next
    case last_keep
    from u(2) [OF this]
    have "bufs w' = (bufs w)(p \<mapsto> b\<lparr>n_locks := 0, derived := after_release (derived b)\<rparr>)"
        "trace w' = trace w @ EvRelease p # release_msgs b"
      using unl by auto
    then show ?thesis
      using c' m by (intro exI [of _ "EvRelease p # release_msgs b"]) auto
  next
    case last_acc
    from u(3) [OF this] show ?thesis using unl by simp
  next
    case last_fire
    let ?b2 = "b\<lparr>n_locks := 0, derived := after_release (derived b)\<rparr>"
    from u(4) [OF last_fire]
    obtain gs where g: "bufs w' = (bufs w)(p := None)"
        "trace w' = trace w @ EvRelease p # release_msgs b @ EvDestroy p # map Gpu gs
           @ destroy_msgs ?b2 @ [EvFree p]"
      using unl by auto
    have "derived ?b2 = ClientBuffer c'"
      using c'(1) by simp
    from client_msgs(2) [OF this]
    have "acks (destroy_msgs ?b2) = (if resource c \<noteq> None \<and> \<not> resource_released c' then 1 else 0)"
      using c'(2) by simp
    then have d: "acks (destroy_msgs ?b2) = 0"
      using c'(3) by auto
    show ?thesis
      using g m d
      by (intro exI [of _ "EvRelease p # release_msgs b @ EvDestroy p # map Gpu gs
           @ destroy_msgs ?b2 @ [EvFree p]"]) auto
  qed
next
  case Drop
  then have drp: "wlr_buffer_drop (Some p) w = Inr w'"
    using st by simp
  have nd: "\<not> dropped b"
    using drp drop_dropped [OF live] by (cases "dropped b") auto
  note d = drop_live [OF live nd]
  consider (locked) "0 < n_locks b" | (acc) "n_locks b = 0" "accessing_data_ptr b"
    | (fire) "n_locks b = 0" "\<not> accessing_data_ptr b"
    by auto
  then show ?thesis
  proof cases
    case locked
    then have "w' = set_buffer p (b\<lparr>dropped := True\<rparr>) w"
      using d(1) drp by simp
    then show ?thesis
      using cb by (intro exI [of _ "[]"]) simp
  next
    case acc
    from d(2) [OF this] show ?thesis using drp by simp
  next
    case fire
    from d(3) [OF this]
    obtain gs where g: "bufs w' = (bufs w)(p := None)"
        "trace w' = trace w @ EvDestroy p # map Gpu gs @ destroy_msgs (b\<lparr>dropped := True\<rparr>)
           @ [EvFree p]"
      using drp by auto
    have "derived (b\<lparr>dropped := True\<rparr>) = ClientBuffer c"
      using cb by simp
    from client_msgs(2) [OF this]
    show ?thesis
      using g
      by (intro exI [of _ "EvDestroy p # map Gpu gs @ destroy_msgs (b\<lparr>dropped := True\<rparr>)
           @ [EvFree p]"]) auto
  qed
next
  case BeginAccess
  have na: "\<not> accessing_data_ptr b"
    using st BeginAccess begin_nested [OF live] by (cases "accessing_data_ptr b") auto
  from begin_live [OF live na]
  obtain acc w1 es where "buffer_begin_data_ptr_access p w = Inr (acc, w1)"
      "bufs w1 = (bufs w)(p \<mapsto> b\<lparr>accessing_data_ptr := (acc \<noteq> None)\<rparr>)"
      "trace w1 = trace w @ es" "set es \<subseteq> {WlShmBufferBeginAccess}"
    by blast
  then show ?thesis
    using st BeginAccess cb acks_quiet [of es] by (intro exI [of _ es]) auto
next
  case EndAccess
  then have e: "buffer_end_data_ptr_access p w = Inr w'"
    using st by simp
  have a: "accessing_data_ptr b"
    using e end_unmatched [OF live] by (cases "accessing_data_ptr b") auto
  from end_live [OF live a e]
  obtain es where "bufs w' = (bufs w)(p \<mapsto> b\<lparr>accessing_data_ptr := False\<rparr>)"
      "trace w' = trace w @ es" "set es \<subseteq> {WlShmBufferEndAccess}"
    by blast
  then show ?thesis
    using cb acks_quiet [of es] by (intro exI [of _ es]) auto
next
  case ResourceDestroy
  then have "w' = resource_destroyed p w"
    using st by simp
  then show ?thesis
    using resource_destroyed_client [OF live cb] by (intro exI [of _ "[]"]) simp
qed

lemma shm_dropped_step:
  assumes live: "bufs w p = Some b" and sb: "derived b = ShmClientBuffer s"
    and dr: "dropped b" and st: "step p x w = Inr (r, w')"
  shows "\<exists>es. trace w' = trace w @ es
           \<and> (case bufs w' p of
                None \<Rightarrow> acks es \<le> 1
              | Some b' \<Rightarrow> dropped b' \<and> (\<exists>s'. derived b' = ShmClientBuffer s') \<and> acks es = 0)"
proof (cases x)
  case Lock
  then have "w' = set_buffer p (b\<lparr>n_locks := Suc (n_locks b)\<rparr>) w"
    using st live by (simp add: lock_live)
  then show ?thesis
    using sb dr by (intro exI [of _ "[]"]) simp
next
  case Unlock
  then have unl: "wlr_buffer_unlock (Some p) w = Inr w'"
    using st by simp
  have pos: "0 < n_locks b"
    using unl unlock_unlocked [OF live] by (cases "n_locks b = 0") auto
  note u = unlock_live [OF live pos]
  consider (many) "1 < n_locks b"
    | (last_acc) "n_locks b = 1" "dropped b" "accessing_data_ptr b"
    | (last_fire) "n_locks b = 1" "dropped b" "\<not> accessing_data_ptr b"
    using pos dr by linarith
  then show ?thesis
  proof cases
    case many
    then have "w' = set_buffer p (b\<lparr>n_locks := n_locks b - 1\<rparr>) w"
      using u(1) unl by simp
    then show ?thesis
      using sb dr by (intro exI [of _ "[]"]) simp
  next
    case last_acc
    from u(3) [OF this] show ?thesis using unl by simp
  next
    case last_fire
    let ?b2 = "b\<lparr>n_locks := 0, derived := after_release (derived b)\<rparr>"
    from u(4) [OF last_fire]
    obtain gs where g: "bufs w' = (bufs w)(p := None)"
        "trace w' = trace w @ EvRelease p # release_msgs b @ EvDestroy p # map Gpu gs
           @ destroy_msgs ?b2 @ [EvFree p]"
      using unl by auto
    have "derived ?b2 = ShmClientBuffer s"
      using shm_msgs(3) [OF sb] sb by simp
    from shm_msgs(2) [OF this]
    have d: "acks (destroy_msgs ?b2) = 0" .
    show ?thesis
      using g d shm_msgs(1) [OF sb]
      by (intro exI [of _ "EvRelease p # release_msgs b @ EvDestroy p # map Gpu gs
           @ destroy_msgs ?b2 @ [EvFree p]"]) auto
  qed
next
  case Drop
  then show ?thesis
    using st drop_dropped [OF live dr] by simp
next
  case BeginAccess
  have na: "\<not> accessing_data_ptr b"
    using st BeginAccess begin_nested [OF live] by (cases "accessing_data_ptr b") auto
  from begin_live [OF live na]
  obtain acc w1 es where "buffer_begin_data_ptr_access p w = Inr (acc, w1)"
      "bufs w1 = (bufs w)(p \<mapsto> b\<lparr>accessing_data_ptr := (acc \<noteq> None)\<rparr>)"
      "trace w1 = trace w @ es" "set es \<subseteq> {WlShmBufferBeginAccess}"
    by blast
  then show ?thesis
    using st BeginAccess sb dr acks_quiet [of es] by (intro exI [of _ es]) auto
next
  case EndAccess
  then have e: "buffer_end_data_ptr_access p w = Inr w'"
    using st by simp
  have a: "accessing_data_ptr b"
    using e end_unmatched [OF live] by (cases "accessing_data_ptr b") auto
  from end_live [OF live a e]
  obtain es where "bufs w' = (bufs w)(p \<mapsto> b\<lparr>accessing_data_ptr := False\<rparr>)"
      "trace w' = trace w @ es" "set es \<subseteq> {WlShmBufferEndAccess}"
    by blast
  then show ?thesis
    using sb dr acks_quiet [of es] by (intro exI [of _ es]) auto
next
  case ResourceDestroy
  then have w': "w' = resource_destroyed p w"
    using st by simp
  from resource_destroyed_shm [OF live sb]
  obtain s' es where "bufs (resource_destroyed p w) = (bufs w)(p \<mapsto> b\<lparr>derived := ShmClientBuffer s'\<rparr>)"
      "trace (resource_destroyed p w) = trace w @ es" "acks es = 0"
    by blast
  then show ?thesis
    unfolding w' using dr by (intro exI [of _ es]) simp
qed

lemma write_pixels_gpu:
  assumes "gles2_texture_write_pixels tabs tp strd wd ht sx sy dx dy dat w = Inr (ok, w')"
  shows "\<exists>gs. w' = emit (map Gpu gs) w"
proof (cases ok)
  case False
  then have "w' = w"
    using assms write_pixels_failure_changes_nothing by simp
  then show ?thesis
    by (intro exI [of _ "[]"]) simp
next
  case True
  then show ?thesis
    using assms
    by (auto simp add: gles2_texture_write_pixels_def simp del: list.map
          split: option.splits sum.splits bool.splits if_splits)
qed

lemma write_damage_gpu:
  assumes "write_damage tabs tp strd dat rs w = Inr (ok, w1)"
  shows "\<exists>gs. w1 = emit (map Gpu gs) w"
  using assms
proof (induction rs arbitrary: w)
  case Nil
  then show ?case by (intro exI [of _ "[]"]) simp
next
  case (Cons r rs)
  let ?wp = "gles2_texture_write_pixels tabs tp strd (x2 r - x1 r) (y2 r - y1 r)
               (x1 r) (y1 r) (x1 r) (y1 r) dat w"
  obtain ok2 w2 where w2: "?wp = Inr (ok2, w2)"
    using Cons.prems by (auto split: sum.splits)
  from write_pixels_gpu [OF w2]
  obtain gs where gs: "w2 = emit (map Gpu gs) w"
    by blast
  show ?case
  proof (cases ok2)
    case False
    then have "w1 = w2"
      using Cons.prems w2 by simp
    then show ?thesis
      using gs by blast
  next
    case True
    then have "write_damage tabs tp strd dat rs w2 = Inr (ok, w1)"
      using Cons.prems w2 by simp
    from Cons.IH [OF this]
    obtain gs' where "w1 = emit (map Gpu gs') w2"
      by blast
    then show ?thesis
      using gs by (intro exI [of _ "gs @ gs'"]) simp
  qed
qed

lemma apply_damage_client:
  assumes live: "bufs w p = Some b" and cb: "derived b = ClientBuffer c"
    and ad: "wlr_client_buffer_apply_damage tabs p res damage w = Inr (r, w')"
  shows "(r = None \<longrightarrow> bufs w' = bufs w \<and> (\<exists>es. trace w' = trace w @ es \<and> acks es = 0))
       \<and> (r \<noteq> None \<longrightarrow>
            r = Some p
            \<and> bufs w' = (bufs w)(p \<mapsto> b\<lparr>derived := ClientBuffer
                                          (c\<lparr>resource := Some res, resource_released := True\<rparr>)\<rparr>)
            \<and> (\<exists>es. trace w' = trace w @ es @ [WlBufferSendRelease res] \<and> acks es = 0))"
proof -
  have quiet: "bufs w = bufs w \<and> (\<exists>es. trace w = trace w @ es \<and> acks es = 0)"
    by simp
  let ?wd = "write_damage tabs (texture c) (sb_stride (the (wl_shm_buffer_get (Some res) w)))
               (Some (sb_data (the (wl_shm_buffer_get (Some res) w)))) damage
               (emit [WlShmBufferBeginAccess] w)"
  show ?thesis
  proof (cases "r = None \<and> w' = w")
    case True
    then show ?thesis
      using quiet by simp
  next
    case False
    then obtain ok w1 where wd: "?wd = Inr (ok, w1)"
        and res: "if ok
                  then r = Some p \<and> w' = set_buffer p
                         (b\<lparr>derived := ClientBuffer
                              (c\<lparr>resource := Some res, resource_released := True\<rparr>)\<rparr>)
                         (emit [WlShmBufferEndAccess, WlBufferSendRelease res] w1)
                  else r = None \<and> w' = emit [WlShmBufferEndAccess] w1"
      using ad live cb
      by (auto simp add: wlr_client_buffer_apply_damage_def
            split: option.splits if_splits sum.splits bool.splits)
    from write_damage_gpu [OF wd]
    obtain gs where gs: "w1 = emit (map Gpu gs) (emit [WlShmBufferBeginAccess] w)"
      by blast
    show ?thesis
    proof (cases ok)
      case True
      have "acks (WlShmBufferBeginAccess # map Gpu gs @ [WlShmBufferEndAccess]) = 0"
        by (simp add: acks_def)
      then show ?thesis
        using res True gs
        by (auto simp add: set_buffer_def emit_def
              intro!: exI [of _ "WlShmBufferBeginAccess # map Gpu gs @ [WlShmBufferEndAccess]"])
    next
      case False
      have "acks (WlShmBufferBeginAccess # map Gpu gs @ [WlShmBufferEndAccess]) = 0"
        by (simp add: acks_def)
      then show ?thesis
        using res False gs
        by (auto simp add: emit_def
              intro!: exI [of _ "WlShmBufferBeginAccess # map Gpu gs @ [WlShmBufferEndAccess]"])
    qed
  qed
qed


lemma updates_Cons: "updates (x # xs) (r # rs) = updates [x] [r] + updates xs rs"
  by (cases x) simp_all

lemma client_step_freed:
  assumes "bufs w p = None" "client_step tabs p x w = Inr (r, w')"
  shows "w' = w \<and> updates [x] [r] = 0"
proof (cases x)
  case (Call y)
  then show ?thesis
    using assms step_freed [of w p y r w'] by simp
next
  case (ApplyDamage res damage)
  then show ?thesis
    using assms by (simp add: wlr_client_buffer_apply_damage_def split: option.splits)
qed

lemma freed_client_run:
  assumes "bufs w p = None" "client_run tabs p ops w = Inr (rs, w')"
  shows "w' = w \<and> updates ops rs = 0"
  using assms
proof (induction ops arbitrary: rs)
  case Nil
  then show ?case by auto
next
  case (Cons x xs)
  obtain r w1 rs1 where s: "client_step tabs p x w = Inr (r, w1)"
      "client_run tabs p xs w1 = Inr (rs1, w')" "rs = r # rs1"
    using Cons.prems(2) by (auto split: sum.splits)
  have w1: "w1 = w" "updates [x] [r] = 0"
    using client_step_freed [OF Cons.prems(1) s(1)] by simp_all
  then show ?case
    using Cons.IH [OF Cons.prems(1), of rs1] s(2,3) updates_Cons [of x xs r rs1] by simp
qed

lemma client_step_budget:
  assumes live: "bufs w p = Some b" and cb: "derived b = ClientBuffer c"
    and st: "client_step tabs p x w = Inr (r, w')"
  shows "\<exists>es. trace w' = trace w @ es \<and> updates [x] [r] \<le> acks es
           \<and> (case bufs w' p of
                None \<Rightarrow> acks es \<le> updates [x] [r] + (if resource_released c then 0 else 1)
              | Some b' \<Rightarrow>
                  (\<exists>c'. derived b' = ClientBuffer c'
                     \<and> acks es + (if resource_released c' then 0 else 1)
                         \<le> updates [x] [r] + (if resource_released c then 0 else 1)))"
proof (cases x)
  case (Call y)
  then have "step p y w = Inr (r, w')"
    using st by simp
  from client_call_acks [OF live cb this]
  obtain es where es: "trace w' = trace w @ es"
      "case bufs w' p of
         None \<Rightarrow> acks es \<le> (if resource_released c then 0 else 1)
       | Some b' \<Rightarrow>
           (\<exists>c'. derived b' = ClientBuffer c'
              \<and> (if resource_released c then resource_released c' \<and> acks es = 0
                  else acks es = 0 \<or> (acks es = 1 \<and> resource_released c')))"
    by blast
  show ?thesis
    using es Call
    by (intro exI [of _ es]) (auto split: option.splits if_splits)
next
  case (ApplyDamage res damage)
  then obtain q where ad: "wlr_client_buffer_apply_damage tabs p res damage w = Inr (q, w')"
      and r: "r = (q \<noteq> None)"
    using st by (auto split: sum.splits)
  note a = apply_damage_client [OF live cb ad]
  show ?thesis
  proof (cases q)
    case None
    then obtain es where "bufs w' = bufs w" "trace w' = trace w @ es" "acks es = 0"
      using a by blast
    then show ?thesis
      using None r ApplyDamage live cb by (intro exI [of _ es]) simp
  next
    case (Some q')
    then obtain es where
        "bufs w' = (bufs w)(p \<mapsto> b\<lparr>derived := ClientBuffer
                                          (c\<lparr>resource := Some res, resource_released := True\<rparr>)\<rparr>)"
        "trace w' = trace w @ es @ [WlBufferSendRelease res]" "acks es = 0"
      using a by auto
    then show ?thesis
      using Some r ApplyDamage
      by (intro exI [of _ "es @ [WlBufferSendRelease res]"]) simp
  qed
qed

lemma client_run_budget:
  assumes "bufs w p = Some b" "derived b = ClientBuffer c"
    and "client_run tabs p ops w = Inr (rs, w')"
  shows "\<exists>es. trace w' = trace w @ es \<and> updates ops rs \<le> acks es
           \<and> acks es \<le> updates ops rs + (if resource_released c then 0 else 1)"
  using assms
proof (induction ops arbitrary: w b c rs)
  case Nil
  then show ?case by auto
next
  case (Cons x xs)
  obtain r w1 rs1 where s: "client_step tabs p x w = Inr (r, w1)"
      "client_run tabs p xs w1 = Inr (rs1, w')" "rs = r # rs1"
    using Cons.prems(3) by (auto split: sum.splits)
  note split = updates_Cons [of x xs r rs1]
  from client_step_budget [OF Cons.prems(1,2) s(1)]
  obtain es where es: "trace w1 = trace w @ es" "updates [x] [r] \<le> acks es"
      "case bufs w1 p of
         None \<Rightarrow> acks es \<le> updates [x] [r] + (if resource_released c then 0 else 1)
       | Some b' \<Rightarrow>
           (\<exists>c'. derived b' = ClientBuffer c'
              \<and> acks es + (if resource_released c' then 0 else 1)
                  \<le> updates [x] [r] + (if resource_released c then 0 else 1))"
    by blast
  show ?case
  proof (cases "bufs w1 p")
    case None
    then have "w' = w1" "updates xs rs1 = 0"
      using freed_client_run [OF None s(2)] by simp_all
    then show ?thesis
      using es None s(3) split by (intro exI [of _ es]) simp
  next
    case (Some b')
    then obtain c' where c': "derived b' = ClientBuffer c'"
        "acks es + (if resource_released c' then 0 else 1)
           \<le> updates [x] [r] + (if resource_released c then 0 else 1)"
      using es(3) by auto
    from Cons.IH [OF Some c'(1) s(2)]
    obtain es' where es': "trace w' = trace w1 @ es'" "updates xs rs1 \<le> acks es'"
        "acks es' \<le> updates xs rs1 + (if resource_released c' then 0 else 1)"
      by blast
    have "updates (x # xs) rs \<le> acks (es @ es')"
      using es(2) es'(2) s(3) split by simp
    moreover have "acks (es @ es') \<le> updates (x # xs) rs + (if resource_released c then 0 else 1)"
      using c'(2) es'(3) s(3) split by (simp split: if_splits)
    ultimately show ?thesis
      using es(1) es'(1) by (intro exI [of _ "es @ es'"]) simp
  qed
qed

lemma shm_client_step:
  assumes "bufs w p = Some b" "derived b = ShmClientBuffer s"
    and "client_step tabs p x w = Inr (r, w')"
  shows "\<exists>y. x = Call y \<and> step p y w = Inr (r, w')"
proof (cases x)
  case (Call y)
  then show ?thesis
    using assms(3) by simp
next
  case (ApplyDamage res damage)
  then show ?thesis
    using assms by (simp add: wlr_client_buffer_apply_damage_def split: option.splits)
qed

lemma shm_dropped_client_run:
  assumes "bufs w p = Some b" "derived b = ShmClientBuffer s" "dropped b"
    and "client_run tabs p ops w = Inr (rs, w')"
  shows "\<exists>es. trace w' = trace w @ es \<and> acks es \<le> 1"
  using assms
proof (induction ops arbitrary: w b s rs)
  case Nil
  then show ?case by simp
next
  case (Cons x xs)
  obtain r w1 rs1 where s: "client_step tabs p x w = Inr (r, w1)"
      "client_run tabs p xs w1 = Inr (rs1, w')"
    using Cons.prems(4) by (auto split: sum.splits)
  from shm_client_step [OF Cons.prems(1,2) s(1)]
  obtain y where y: "step p y w = Inr (r, w1)"
    by blast
  from shm_dropped_step [OF Cons.prems(1,2,3) y]
  obtain es where es: "trace w1 = trace w @ es"
      "case bufs w1 p of
         None \<Rightarrow> acks es \<le> 1
       | Some b' \<Rightarrow> dropped b' \<and> (\<exists>s'. derived b' = ShmClientBuffer s') \<and> acks es = 0"
    by blast
  show ?case
  proof (cases "bufs w1 p")
    case None
    then have "w' = w1"
      using freed_client_run [OF None s(2)] by simp
    then show ?thesis
      using es None by (intro exI [of _ es]) simp
  next
    case (Some b')
    then obtain s' where s': "dropped b'" "derived b' = ShmClientBuffer s'" "acks es = 0"
      using es(2) by auto
    from Cons.IH [OF Some s'(2,1) s(2)]
    obtain es' where es': "trace w' = trace w1 @ es'" "acks es' \<le> 1"
      by blast
    show ?thesis
      using es(1) es' s'(3) by (intro exI [of _ "es @ es'"]) simp
  qed
qed

lemma handle_release_released:
  assumes "bufs w p = Some b" "derived b = ClientBuffer c" "resource_released c"
  shows "client_buffer_handle_release p w = w"
  using assms by (simp add: client_buffer_handle_release_def split: option.splits)

text \<open>
  Claim C7 as stated fails for a client buffer that takes damage updates. A damage update
  that succeeds sends a release for the resource it was given, whatever has been sent to
  that resource before and whether or not the buffer counts its resource as released. A
  client that attaches the same shared-memory resource twice, to a buffer that has already
  released it, is sent two more acknowledgments on that resource.
\<close>

theorem damage_update_acknowledges_again:
  "map_sum id fst
     (client_run example_tables 0
        [ApplyDamage 1 [\<lparr>x1 = 0, y1 = 0, x2 = 2, y2 = 2\<rparr>],
         ApplyDamage 1 [\<lparr>x1 = 0, y1 = 0, x2 = 2, y2 = 2\<rparr>]] example_client_world)
     = Inr [True, True]
   \<and> map_sum id (filter is_ack \<circ> trace \<circ> snd)
       (client_run example_tables 0
          [ApplyDamage 1 [\<lparr>x1 = 0, y1 = 0, x2 = 2, y2 = 2\<rparr>],
           ApplyDamage 1 [\<lparr>x1 = 0, y1 = 0, x2 = 2, y2 = 2\<rparr>]] example_client_world)
     = Inr [WlBufferSendRelease 1, WlBufferSendRelease 1]"
  by (simp add: wlr_client_buffer_apply_damage_def wl_shm_buffer_get_def
        gles2_texture_write_pixels_def gles2_get_texture_def check_stride_def
        example_client_world_def example_client_buffer_def example_texture_def
        example_tables_def example_shm_def set_buffer_def emit_def)


text \<open>
  Claim C7, amended. Over every history of lock, unlock, drop, data access, resource
  destruction and damage updates on a client buffer (\<open>wlr_client_buffer\<close>), final
  destruction included, the acknowledgments sent are one for each damage update that
  succeeded and at most one more, and no more than those of the damage updates when the
  resource counts as released at the start: the release handler and the destruction
  together acknowledge at most once, and the release handler does nothing on a buffer whose
  resource counts as released. A damage update that succeeds sends exactly one
  acknowledgment, as its last message, to the resource it was given, and leaves that
  resource as the buffer's resource, counted as released; a damage update that fails sends
  none and leaves the buffer as it was. A shared-memory client buffer that has been
  dropped (as \<open>wlr_client_buffer_import\<close> drops it right after creating it) sends at most
  one acknowledgment over every such history.
\<close>

theorem release_ack_at_most_once:
  assumes "bufs w0 p = Some b0" and "client_run tabs p ops w0 = Inr (rs, w)"
  shows "(derived b0 = ClientBuffer c0 \<longrightarrow>
            (\<exists>es. trace w = trace w0 @ es \<and> updates ops rs \<le> acks es
               \<and> acks es \<le> updates ops rs + (if resource_released c0 then 0 else 1))
            \<and> (resource_released c0 \<longrightarrow> client_buffer_handle_release p w0 = w0)
            \<and> (wlr_client_buffer_apply_damage tabs p res damage w0 = Inr (Some q, w1) \<longrightarrow>
                 q = p
                 \<and> (\<exists>es. trace w1 = trace w0 @ es @ [WlBufferSendRelease res] \<and> acks es = 0)
                 \<and> bufs w1 p = Some (b0\<lparr>derived := ClientBuffer
                                        (c0\<lparr>resource := Some res, resource_released := True\<rparr>)\<rparr>))
            \<and> (wlr_client_buffer_apply_damage tabs p res damage w0 = Inr (None, w1) \<longrightarrow>
                 bufs w1 = bufs w0 \<and> (\<exists>es. trace w1 = trace w0 @ es \<and> acks es = 0)))
       \<and> (derived b0 = ShmClientBuffer s0 \<and> dropped b0 \<longrightarrow>
            (\<exists>es. trace w = trace w0 @ es \<and> acks es \<le> 1))"
proof (intro conjI impI)
  assume cb: "derived b0 = ClientBuffer c0"
  from client_run_budget [OF assms(1) cb assms(2)]
  show "\<exists>es. trace w = trace w0 @ es \<and> updates ops rs \<le> acks es
               \<and> acks es \<le> updates ops rs + (if resource_released c0 then 0 else 1)" .
next
  assume "derived b0 = ClientBuffer c0" "resource_released c0"
  then show "client_buffer_handle_release p w0 = w0"
    using handle_release_released [OF assms(1)] by simp
next
  assume cb: "derived b0 = ClientBuffer c0"
    and ad: "wlr_client_buffer_apply_damage tabs p res damage w0 = Inr (Some q, w1)"
  from apply_damage_client [OF assms(1) cb ad]
  show "q = p" and "\<exists>es. trace w1 = trace w0 @ es @ [WlBufferSendRelease res] \<and> acks es = 0"
    and "bufs w1 p = Some (b0\<lparr>derived := ClientBuffer
                                 (c0\<lparr>resource := Some res, resource_released := True\<rparr>)\<rparr>)"
    by simp_all
next
  assume cb: "derived b0 = ClientBuffer c0"
    and ad: "wlr_client_buffer_apply_damage tabs p res damage w0 = Inr (None, w1)"
  from apply_damage_client [OF assms(1) cb ad]
  show "bufs w1 = bufs w0" and "\<exists>es. trace w1 = trace w0 @ es \<and> acks es = 0"
    by simp_all
next
  assume "derived b0 = ShmClientBuffer s0 \<and> dropped b0"
  then show "\<exists>es. trace w = trace w0 @ es \<and> acks es \<le> 1"
    using shm_dropped_client_run [OF assms(1) _ _ assms(2)] by blast
qed

theorem release_ack_at_most_once_witness:
  "(\<exists>rs w. client_run example_tables 0
              [Call Lock, Call Unlock, Call Lock, Call Unlock, Call Drop]
              example_drm_client_world = Inr (rs, w)
      \<and> release_events 0 (trace w) = [EvRelease 0, EvRelease 0] \<and> acks (trace w) \<le> 1)
   \<and> (\<exists>w. client_run example_tables 0
             [ApplyDamage 2 [\<lparr>x1 = 0, y1 = 0, x2 = 2, y2 = 2\<rparr>], Call Unlock]
             example_client_world = Inr ([True, True], w)
        \<and> acks (trace w) = 1)
   \<and> (\<exists>w. client_run example_tables 0 [Call BeginAccess, Call EndAccess, Call Unlock]
             example_shm_client_world = Inr ([True, True, True], w)
        \<and> acks (trace w) \<le> 1)"
proof -
  let ?c = "\<lparr>resource = Some 1, resource_released = False, texture = 7\<rparr>"
  let ?b = "\<lparr>width = 4, height = 4, dropped = False, n_locks = 0,
             accessing_data_ptr = False, derived = ClientBuffer ?c\<rparr>"
  let ?ops = "[Call Lock, Call Unlock, Call Lock, Call Unlock, Call Drop]"
  have h: "bufs example_drm_client_world 0 = Some ?b"
    by (simp add: example_drm_client_world_def)
  have "\<exists>rs w. client_run example_tables 0 ?ops example_drm_client_world = Inr (rs, w)
          \<and> rs = [True, True, True, True, True]
          \<and> release_events 0 (trace w) = [EvRelease 0, EvRelease 0]"
    by (simp add: example_drm_client_world_def wlr_buffer_lock_def wlr_buffer_unlock_def
          wlr_buffer_drop_def signal_emit_release_def client_buffer_handle_release_def
          buffer_consider_destroy_def signal_emit_destroy_def client_buffer_impl_def
          client_buffer_destroy_def free_buffer_def set_buffer_def emit_def Let_def)
  then obtain rs w where
      r: "client_run example_tables 0 ?ops example_drm_client_world = Inr (rs, w)"
      "rs = [True, True, True, True, True]"
      "release_events 0 (trace w) = [EvRelease 0, EvRelease 0]"
    by blast
  have "derived ?b = ClientBuffer ?c"
    by simp
  from release_ack_at_most_once [OF h r(1), THEN conjunct1, THEN mp, OF this, THEN conjunct1]
  obtain es where "trace w = trace example_drm_client_world @ es"
      "acks es \<le> updates ?ops rs + (if resource_released ?c then 0 else 1)"
    by blast
  then have "acks (trace w) \<le> 1"
    using r(2) by (simp add: example_drm_client_world_def)
  then have first: "\<exists>rs w. client_run example_tables 0 ?ops example_drm_client_world = Inr (rs, w)
      \<and> release_events 0 (trace w) = [EvRelease 0, EvRelease 0] \<and> acks (trace w) \<le> 1"
    using r by blast
  let ?c2 = "\<lparr>resource = Some 1, resource_released = True, texture = 7\<rparr>"
  let ?ops2 = "[ApplyDamage 2 [\<lparr>x1 = 0, y1 = 0, x2 = 2, y2 = 2\<rparr>], Call Unlock]"
  have h2: "bufs example_client_world 0 = Some example_client_buffer"
    by (simp add: example_client_world_def)
  have "\<exists>w. client_run example_tables 0 ?ops2 example_client_world = Inr ([True, True], w)"
    by (simp add: wlr_client_buffer_apply_damage_def wl_shm_buffer_get_def
          gles2_texture_write_pixels_def gles2_get_texture_def check_stride_def
          example_client_world_def example_client_buffer_def example_texture_def
          example_tables_def example_shm_def wlr_buffer_unlock_def
          signal_emit_release_def client_buffer_handle_release_def
          buffer_consider_destroy_def signal_emit_destroy_def client_buffer_impl_def
          client_buffer_destroy_def free_buffer_def set_buffer_def emit_def Let_def)
  then obtain w2 where
      r2: "client_run example_tables 0 ?ops2 example_client_world = Inr ([True, True], w2)"
    by blast
  have "derived example_client_buffer = ClientBuffer ?c2"
    by (simp add: example_client_buffer_def)
  from release_ack_at_most_once [OF h2 r2, THEN conjunct1, THEN mp, OF this, THEN conjunct1]
  obtain es2 where "trace w2 = trace example_client_world @ es2"
      "updates ?ops2 [True, True] \<le> acks es2"
      "acks es2 \<le> updates ?ops2 [True, True] + (if resource_released ?c2 then 0 else 1)"
    by blast
  then have "acks (trace w2) = 1"
    by (simp add: example_client_world_def)
  then have second: "\<exists>w. client_run example_tables 0 ?ops2 example_client_world
                            = Inr ([True, True], w) \<and> acks (trace w) = 1"
    using r2 by blast
  let ?s = "\<lparr>shm_resource = Some 1, shm_buffer = Some example_shm,
             shm_format = 0x34325241, shm_stride = 16,
             saved_shm_pool = None, shm_saved_data = None\<rparr>"
  let ?b3 = "\<lparr>width = 4, height = 4, dropped = True, n_locks = 1,
              accessing_data_ptr = False, derived = ShmClientBuffer ?s\<rparr>"
  let ?ops3 = "[Call BeginAccess, Call EndAccess, Call Unlock]"
  have h3: "bufs example_shm_client_world 0 = Some ?b3"
    by (simp add: example_shm_client_world_def)
  have "\<exists>w. client_run example_tables 0 ?ops3 example_shm_client_world
               = Inr ([True, True, True], w)"
    by (simp add: example_shm_client_world_def buffer_begin_data_ptr_access_def
          buffer_end_data_ptr_access_def shm_client_buffer_impl_def
          shm_client_buffer_begin_data_ptr_access_def shm_client_buffer_end_data_ptr_access_def
          wlr_buffer_unlock_def signal_emit_release_def shm_client_buffer_handle_release_def
          buffer_consider_destroy_def signal_emit_destroy_def shm_client_buffer_destroy_def
          free_buffer_def set_buffer_def emit_def Let_def)
  then obtain w3 where
      r3: "client_run example_tables 0 ?ops3 example_shm_client_world
             = Inr ([True, True, True], w3)"
    by blast
  have "derived ?b3 = ShmClientBuffer ?s \<and> dropped ?b3"
    by simp
  from release_ack_at_most_once [OF h3 r3, THEN conjunct2, THEN mp, OF this]
  obtain es3 where "trace w3 = trace example_shm_client_world @ es3" "acks es3 \<le> 1"
    by blast
  then have "acks (trace w3) \<le> 1"
    by (simp add: example_shm_client_world_def)
  then have third: "\<exists>w. client_run example_tables 0 ?ops3 example_shm_client_world
                           = Inr ([True, True, True], w) \<and> acks (trace w) \<le> 1"
    using r3 by blast
  show ?thesis
    using first second third by simp
qed

end
